theory Spec2Isabelle
  imports Main "HOL-Library.Word"
begin

unbundle bit_operations_syntax

section \<open>JavaScript values\<close>

text \<open>
  A JavaScript string is a sequence of 16-bit code units; a \<open>Uint8Array\<close> is a sequence of
  bytes. \<open>null\<close> results are \<open>None\<close>; a thrown exception is the \<open>Inl\<close> side of a sum.
\<close>

type_synonym jsstring = "16 word list"
type_synonym bytes = "8 word list"

datatype js_error =
    TypeError
  | OperationError
  | InvalidCharacterError
  | URIError
  | EncryptFailed js_error

definition js :: "string \<Rightarrow> jsstring" where
  "js s = map (\<lambda>c. of_nat (of_char c)) s"

definition startsWith :: "jsstring \<Rightarrow> jsstring \<Rightarrow> bool" where
  "startsWith s p = (take (length p) s = p)"

definition substring_from :: "jsstring \<Rightarrow> nat \<Rightarrow> jsstring" where
  "substring_from s n = drop n s"

section \<open>The host's \<open>btoa\<close> and \<open>atob\<close>\<close>

text \<open>
  \<open>btoa\<close> throws \<open>InvalidCharacterError\<close> when a code unit exceeds 255 and otherwise
  returns the padded base64 text of the units read as bytes. \<open>atob\<close> is the forgiving
  decoder of the HTML standard: it drops ASCII whitespace, removes one or two trailing
  \<open>=\<close> when the length is a multiple of four, rejects a length of 1 modulo 4 and every
  character outside the alphabet, and discards the unused low bits of the last group.
\<close>

definition b64_char :: "nat \<Rightarrow> 16 word" where
  "b64_char n = of_nat (if n < 26 then 65 + n else if n < 52 then 71 + n
                        else if n < 62 then n - 4 else if n = 62 then 43 else 47)"

definition b64_val :: "16 word \<Rightarrow> nat option" where
  "b64_val c = (let n = unat c in
     if 65 \<le> n \<and> n \<le> 90 then Some (n - 65)
     else if 97 \<le> n \<and> n \<le> 122 then Some (n - 71)
     else if 48 \<le> n \<and> n \<le> 57 then Some (n + 4)
     else if n = 43 then Some 62
     else if n = 47 then Some 63
     else None)"

fun b64_groups :: "nat list \<Rightarrow> jsstring" where
  "b64_groups [] = []"
| "b64_groups [a] = [b64_char (a div 4), b64_char (a mod 4 * 16), 61, 61]"
| "b64_groups [a, b] =
     [b64_char (a div 4), b64_char (a mod 4 * 16 + b div 16), b64_char (b mod 16 * 4), 61]"
| "b64_groups (a # b # c # rest) =
     b64_char (a div 4) # b64_char (a mod 4 * 16 + b div 16) #
     b64_char (b mod 16 * 4 + c div 64) # b64_char (c mod 64) # b64_groups rest"

definition latin1 :: "jsstring \<Rightarrow> bool" where
  "latin1 s = list_all (\<lambda>c. c \<le> 255) s"

definition btoa :: "jsstring \<Rightarrow> js_error + jsstring" where
  "btoa s = (if latin1 s then Inr (b64_groups (map unat s)) else Inl InvalidCharacterError)"

definition is_ascii_ws :: "16 word \<Rightarrow> bool" where
  "is_ascii_ws c = (c = 9 \<or> c = 10 \<or> c = 12 \<or> c = 13 \<or> c = 32)"

definition strip_padding :: "jsstring \<Rightarrow> jsstring" where
  "strip_padding d =
     (if d \<noteq> [] \<and> last d = 61
      then (let d' = butlast d in if d' \<noteq> [] \<and> last d' = 61 then butlast d' else d')
      else d)"

fun b64_bytes :: "nat list \<Rightarrow> nat list" where
  "b64_bytes (s1 # s2 # s3 # s4 # rest) =
     (s1 * 4 + s2 div 16) # (s2 mod 16 * 16 + s3 div 4) # (s3 mod 4 * 64 + s4) # b64_bytes rest"
| "b64_bytes [s1, s2, s3] = [s1 * 4 + s2 div 16, s2 mod 16 * 16 + s3 div 4]"
| "b64_bytes [s1, s2] = [s1 * 4 + s2 div 16]"
| "b64_bytes _ = []"

definition atob :: "jsstring \<Rightarrow> js_error + jsstring" where
  "atob s =
     (let d = filter (\<lambda>c. \<not> is_ascii_ws c) s;
          d = (if length d mod 4 = 0 then strip_padding d else d)
      in if length d mod 4 = 1 then Inl InvalidCharacterError
         else (case those (map b64_val d) of
                 None \<Rightarrow> Inl InvalidCharacterError
               | Some v \<Rightarrow> Inr (map of_nat (b64_bytes v))))"

text \<open>The sextets of the unpadded base64 text, for the proofs about \<open>btoa\<close>.\<close>

fun b64_sextets :: "nat list \<Rightarrow> nat list" where
  "b64_sextets [] = []"
| "b64_sextets [a] = [a div 4, a mod 4 * 16]"
| "b64_sextets [a, b] = [a div 4, a mod 4 * 16 + b div 16, b mod 16 * 4]"
| "b64_sextets (a # b # c # rest) =
     (a div 4) # (a mod 4 * 16 + b div 16) # (b mod 16 * 4 + c div 64) # (c mod 64) # b64_sextets rest"

section \<open>Whitespace\<close>

text \<open>
  \<open>String.prototype.trim\<close> and the pattern \<open>\s\<close> use the same set: the WhiteSpace and
  LineTerminator code points of ECMAScript.
\<close>

definition is_js_ws :: "16 word \<Rightarrow> bool" where
  "is_js_ws c =
     (c = 0x09 \<or> c = 0x0A \<or> c = 0x0B \<or> c = 0x0C \<or> c = 0x0D \<or> c = 0x20 \<or> c = 0xA0 \<or>
      c = 0x1680 \<or> (0x2000 \<le> c \<and> c \<le> 0x200A) \<or> c = 0x2028 \<or> c = 0x2029 \<or>
      c = 0x202F \<or> c = 0x205F \<or> c = 0x3000 \<or> c = 0xFEFF)"

definition trim :: "jsstring \<Rightarrow> jsstring" where
  "trim s = rev (dropWhile is_js_ws (rev (dropWhile is_js_ws s)))"

definition remove_whitespace :: "jsstring \<Rightarrow> jsstring" where
  "remove_whitespace s = filter (\<lambda>c. \<not> is_js_ws c) s"

section \<open>UTF-8\<close>

text \<open>
  \<open>unescape(encodeURIComponent(s))\<close> is the UTF-8 encoding of \<open>s\<close> as a string of
  units below 256; \<open>encodeURIComponent\<close> throws \<open>URIError\<close> on a surrogate that has no
  partner. \<open>decodeURIComponent(escape(s))\<close> is its inverse: \<open>escape\<close> writes a unit
  above 255 as \<open>%uXXXX\<close>, which \<open>decodeURIComponent\<close> rejects, and the remaining
  octets must be well-formed UTF-8 (no overlong form, no surrogate, nothing above
  U+10FFFF). \<open>TextEncoder.encode\<close> encodes the same way but writes U+FFFD for a lone
  surrogate instead of throwing.
\<close>

definition is_lead :: "16 word \<Rightarrow> bool" where
  "is_lead u = (0xD800 \<le> u \<and> u \<le> 0xDBFF)"

definition is_trail :: "16 word \<Rightarrow> bool" where
  "is_trail u = (0xDC00 \<le> u \<and> u \<le> 0xDFFF)"

definition pair_cp :: "16 word \<Rightarrow> 16 word \<Rightarrow> nat" where
  "pair_cp hi lo = 0x10000 + (unat hi - 0xD800) * 0x400 + (unat lo - 0xDC00)"

definition utf8_of_cp :: "nat \<Rightarrow> nat list" where
  "utf8_of_cp cp =
     (if cp < 0x80 then [cp]
      else if cp < 0x800 then [0xC0 + cp div 64, 0x80 + cp mod 64]
      else if cp < 0x10000 then [0xE0 + cp div 4096, 0x80 + cp div 64 mod 64, 0x80 + cp mod 64]
      else [0xF0 + cp div 262144, 0x80 + cp div 4096 mod 64, 0x80 + cp div 64 mod 64,
            0x80 + cp mod 64])"

fun utf8_strict :: "jsstring \<Rightarrow> nat list option" where
  "utf8_strict [] = Some []"
| "utf8_strict [u] = (if is_lead u \<or> is_trail u then None else Some (utf8_of_cp (unat u)))"
| "utf8_strict (u # v # vs) =
     (if is_lead u then
        (if is_trail v then map_option ((@) (utf8_of_cp (pair_cp u v))) (utf8_strict vs)
         else None)
      else if is_trail u then None
      else map_option ((@) (utf8_of_cp (unat u))) (utf8_strict (v # vs)))"

fun utf8_lossy :: "jsstring \<Rightarrow> nat list" where
  "utf8_lossy [] = []"
| "utf8_lossy [u] = (if is_lead u \<or> is_trail u then [0xEF, 0xBF, 0xBD] else utf8_of_cp (unat u))"
| "utf8_lossy (u # v # vs) =
     (if is_lead u then
        (if is_trail v then utf8_of_cp (pair_cp u v) @ utf8_lossy vs
         else [0xEF, 0xBF, 0xBD] @ utf8_lossy (v # vs))
      else if is_trail u then [0xEF, 0xBF, 0xBD] @ utf8_lossy (v # vs)
      else utf8_of_cp (unat u) @ utf8_lossy (v # vs))"

definition is_cont :: "nat \<Rightarrow> bool" where
  "is_cont b = (0x80 \<le> b \<and> b \<le> 0xBF)"

fun utf8_decode :: "nat list \<Rightarrow> nat list option" where
  "utf8_decode [] = Some []"
| "utf8_decode (b # bs) =
     (if b < 0x80 then map_option ((#) b) (utf8_decode bs)
      else if 0xC2 \<le> b \<and> b \<le> 0xDF then
        (case bs of
           b1 # r \<Rightarrow>
             if is_cont b1
             then map_option ((#) ((b - 0xC0) * 64 + (b1 - 0x80))) (utf8_decode r)
             else None
         | _ \<Rightarrow> None)
      else if 0xE0 \<le> b \<and> b \<le> 0xEF then
        (case bs of
           b1 # b2 # r \<Rightarrow>
             (let cp = (b - 0xE0) * 4096 + (b1 - 0x80) * 64 + (b2 - 0x80) in
              if is_cont b1 \<and> is_cont b2 \<and> 0x800 \<le> cp \<and> \<not> (0xD800 \<le> cp \<and> cp \<le> 0xDFFF)
              then map_option ((#) cp) (utf8_decode r)
              else None)
         | _ \<Rightarrow> None)
      else if 0xF0 \<le> b \<and> b \<le> 0xF4 then
        (case bs of
           b1 # b2 # b3 # r \<Rightarrow>
             (let cp = (b - 0xF0) * 262144 + (b1 - 0x80) * 4096 + (b2 - 0x80) * 64 + (b3 - 0x80) in
              if is_cont b1 \<and> is_cont b2 \<and> is_cont b3 \<and> 0x10000 \<le> cp \<and> cp \<le> 0x10FFFF
              then map_option ((#) cp) (utf8_decode r)
              else None)
         | _ \<Rightarrow> None)
      else None)"

definition utf16_of_cp :: "nat \<Rightarrow> jsstring" where
  "utf16_of_cp cp =
     (if cp < 0x10000 then [of_nat cp]
      else [of_nat (0xD800 + (cp - 0x10000) div 0x400), of_nat (0xDC00 + (cp - 0x10000) mod 0x400)])"

definition unescape_encodeURIComponent :: "jsstring \<Rightarrow> js_error + jsstring" where
  "unescape_encodeURIComponent s =
     (case utf8_strict s of None \<Rightarrow> Inl URIError | Some bs \<Rightarrow> Inr (map of_nat bs))"

definition decodeURIComponent_escape :: "jsstring \<Rightarrow> js_error + jsstring" where
  "decodeURIComponent_escape s =
     (if latin1 s
      then (case utf8_decode (map unat s) of
              None \<Rightarrow> Inl URIError
            | Some cps \<Rightarrow> Inr (concat (map utf16_of_cp cps)))
      else Inl URIError)"

definition TextEncoder_encode :: "jsstring \<Rightarrow> bytes" where
  "TextEncoder_encode s = map of_nat (utf8_lossy s)"

fun well_formed :: "jsstring \<Rightarrow> bool" where
  "well_formed [] = True"
| "well_formed [u] = (\<not> is_lead u \<and> \<not> is_trail u)"
| "well_formed (u # v # vs) =
     (if is_lead u then is_trail v \<and> well_formed vs
      else \<not> is_trail u \<and> well_formed (v # vs))"

section \<open>The host\<close>

text \<open>
  The Web Crypto primitives are parameters of the model. \<open>pbkdf2\<close> stands for
  \<open>importKey\<close> of the password followed by \<open>deriveKey\<close> with PBKDF2 and SHA-256: it
  takes the password bytes, the salt bytes, the iteration count and the length of the
  AES-GCM key in bits, and returns the raw key. \<open>gcm_encrypt\<close> and \<open>gcm_decrypt\<close> take
  the key, the IV and the data; \<open>gcm_encrypt\<close> returns the ciphertext followed by the
  tag. Each may throw. \<open>subtle\<close> is \<open>None\<close> on a host without \<open>window.crypto.subtle\<close>,
  where reading \<open>importKey\<close>, \<open>encrypt\<close> or \<open>decrypt\<close> throws a \<open>TypeError\<close>.

  \<open>TextDecoder.decode\<close> removes a leading byte order mark and decodes well-formed
  UTF-8; what it returns for ill-formed input (with U+FFFD substitutions) is the host's
  \<open>replacement_decode\<close>.

  The random draws are inputs: \<open>crypto.getRandomValues\<close> reads the next bytes of a
  sequence, and \<open>Math.random().toString(36).substring(2, 8)\<close> is passed as a string.
\<close>

record webcrypto =
  pbkdf2 :: "bytes \<Rightarrow> bytes \<Rightarrow> int \<Rightarrow> nat \<Rightarrow> js_error + bytes"
  gcm_encrypt :: "bytes \<Rightarrow> bytes \<Rightarrow> bytes \<Rightarrow> js_error + bytes"
  gcm_decrypt :: "bytes \<Rightarrow> bytes \<Rightarrow> bytes \<Rightarrow> js_error + bytes"

record host =
  subtle :: "webcrypto option"
  replacement_decode :: "bytes \<Rightarrow> jsstring"

type_synonym random_bytes = "nat \<Rightarrow> 8 word"

definition getRandomValues :: "random_bytes \<Rightarrow> nat \<Rightarrow> bytes \<times> random_bytes" where
  "getRandomValues rng n = (map rng [0..<n], \<lambda>i. rng (i + n))"

definition TextDecoder_decode :: "host \<Rightarrow> bytes \<Rightarrow> jsstring" where
  "TextDecoder_decode h bs =
     (let bs' = (if take 3 bs = [0xEF, 0xBB, 0xBF] then drop 3 bs else bs)
      in case utf8_decode (map unat bs') of
           Some cps \<Rightarrow> concat (map utf16_of_cp cps)
         | None \<Rightarrow> replacement_decode h bs)"

text \<open>
  The configuration read from \<open>window\<close>: \<open>VALINE_CRYPTO_SALT\<close> and the two fields of
  \<open>VALINE_CRYPTO_CONFIG.security\<close> the code reads, each \<open>None\<close> when it is not set.
  Numbers are integers.
\<close>

record crypto_config =
  VALINE_CRYPTO_SALT :: "jsstring option"
  saltLength :: "nat option"
  pbkdf2Iterations :: "int option"

text \<open>\<open>if (window.VALINE_CRYPTO_SALT)\<close>: a string is truthy when it is not empty.\<close>

definition configured_salt :: "crypto_config \<Rightarrow> jsstring option" where
  "configured_salt cfg =
     (case VALINE_CRYPTO_SALT cfg of
        None \<Rightarrow> None
      | Some s \<Rightarrow> if s = [] then None else Some s)"

section \<open>CONFIG\<close>

definition ENCRYPTION_MARKER :: jsstring where
  "ENCRYPTION_MARKER = js ''['' @ [0xD83D, 0xDD12] @ js ''ENCRYPTED]''"

definition FALLBACK_MARKER :: jsstring where
  "FALLBACK_MARKER = js ''FALLBACK:''"

definition IV_LENGTH :: nat where
  "IV_LENGTH = 12"

section \<open>SecurityUtils\<close>

text \<open>
  \<open>generateStrongKey\<close> passes the password and the salt, UTF-8 encoded, to PBKDF2 with
  the configured iteration count, or 100000 when the configuration has none or has 0
  (\<open>||\<close>), and asks for a 256-bit AES-GCM key. It checks nothing itself.
\<close>

definition generateStrongKey :: "host \<Rightarrow> crypto_config \<Rightarrow> jsstring \<Rightarrow> jsstring \<Rightarrow> js_error + bytes" where
  "generateStrongKey h cfg password salt =
     (case subtle h of
        None \<Rightarrow> Inl TypeError
      | Some w \<Rightarrow>
          (let iterations = (case pbkdf2Iterations cfg of
                               None \<Rightarrow> 100000
                             | Some n \<Rightarrow> if n = 0 then 100000 else n)
           in pbkdf2 w (TextEncoder_encode password) (TextEncoder_encode salt) iterations 256))"

text \<open>
  \<open>deriveKey\<close>, of the first extension in the file: the same derivation with the
  iteration count fixed at 100000; the salt is a string, which it encodes, or bytes.
\<close>

definition deriveKey :: "host \<Rightarrow> jsstring \<Rightarrow> jsstring + bytes \<Rightarrow> js_error + bytes" where
  "deriveKey h password salt =
     (case subtle h of
        None \<Rightarrow> Inl TypeError
      | Some w \<Rightarrow>
          pbkdf2 w (TextEncoder_encode password)
            (case salt of Inl s \<Rightarrow> TextEncoder_encode s | Inr b \<Rightarrow> b) 100000 256)"

text \<open>
  \<open>arrayBufferToBase64\<close> calls \<open>btoa\<close> on a string of byte values, which cannot throw.
  \<open>base64ToArrayBuffer\<close> removes all whitespace and calls \<open>atob\<close>.
\<close>

definition arrayBufferToBase64 :: "bytes \<Rightarrow> jsstring" where
  "arrayBufferToBase64 buffer = b64_groups (map unat buffer)"

definition base64ToArrayBuffer :: "jsstring \<Rightarrow> js_error + bytes" where
  "base64ToArrayBuffer base64 =
     (case atob (remove_whitespace (trim base64)) of
        Inl e \<Rightarrow> Inl e
      | Inr binaryString \<Rightarrow> Inr (map ucast binaryString))"

section \<open>CryptoUtils\<close>

text \<open>
  Reading an array or a string at an index taken modulo its length. For an empty one
  JavaScript computes \<open>i % 0 = NaN\<close>, reads \<open>undefined\<close> or \<open>NaN\<close> there, and \<open>^\<close> takes
  that as 0.
\<close>

definition cyclic :: "'a::zero list \<Rightarrow> nat \<Rightarrow> 'a" where
  "cyclic xs i = (if xs = [] then 0 else xs ! (i mod length xs))"

text \<open>
  \<open>createEnhancedKey\<close>: the master key, the salt and the reversed master key, each unit
  XORed with its index modulo 256.
\<close>

definition createEnhancedKey :: "jsstring \<Rightarrow> jsstring \<Rightarrow> jsstring" where
  "createEnhancedKey masterKey salt =
     (let combined = masterKey @ salt @ rev masterKey
      in map (\<lambda>i. combined ! i XOR of_nat (i mod 256)) [0..<length combined])"

text \<open>One round of the XOR loops of \<open>fallbackEncrypt\<close> and \<open>fallbackDecrypt\<close>.\<close>

definition xor_round :: "jsstring \<Rightarrow> nat \<Rightarrow> jsstring \<Rightarrow> jsstring" where
  "xor_round enhancedKey round t =
     map (\<lambda>i. t ! i XOR cyclic enhancedKey (i + round * 7) XOR of_nat (round + 1))
       [0..<length t]"

text \<open>
  The salt of the fallback cipher. With \<open>VALINE_CRYPTO_SALT\<close> set, both
  \<open>fallbackEncrypt\<close> and \<open>fallbackDecrypt\<close> append a suffix drawn from \<open>Math.random\<close>
  at the call.
\<close>

definition fallback_salt :: "crypto_config \<Rightarrow> jsstring \<Rightarrow> jsstring \<Rightarrow> jsstring" where
  "fallback_salt cfg randomSuffix salt =
     (case configured_salt cfg of
        None \<Rightarrow> salt
      | Some cs \<Rightarrow> cs @ js ''_'' @ salt @ js ''_'' @ randomSuffix)"

definition fallbackEncrypt ::
  "crypto_config \<Rightarrow> jsstring \<Rightarrow> jsstring \<Rightarrow> jsstring \<Rightarrow> jsstring \<Rightarrow> js_error + jsstring" where
  "fallbackEncrypt cfg randomSuffix text masterKey salt =
     (let finalSalt = fallback_salt cfg randomSuffix salt;
          enhancedKey = createEnhancedKey masterKey finalSalt
      in case unescape_encodeURIComponent text of
           Inl e \<Rightarrow> Inl (EncryptFailed e)
         | Inr textToEncode \<Rightarrow>
             (case btoa (FALLBACK_MARKER @ fold (xor_round enhancedKey) [0, 1, 2] textToEncode) of
                Inl e \<Rightarrow> Inl (EncryptFailed e)
              | Inr b \<Rightarrow> Inr b))"

definition fallbackDecrypt ::
  "crypto_config \<Rightarrow> jsstring \<Rightarrow> jsstring \<Rightarrow> jsstring \<Rightarrow> jsstring \<Rightarrow> jsstring option" where
  "fallbackDecrypt cfg randomSuffix encryptedBase64 masterKey salt =
     (case atob encryptedBase64 of
        Inl e \<Rightarrow> None
      | Inr decoded \<Rightarrow>
          (let encryptedText = (if startsWith decoded FALLBACK_MARKER
                                then substring_from decoded (length FALLBACK_MARKER)
                                else decoded);
               finalSalt = fallback_salt cfg randomSuffix salt;
               enhancedKey = createEnhancedKey masterKey finalSalt
           in case decodeURIComponent_escape (fold (xor_round enhancedKey) [2, 1, 0] encryptedText) of
                Inl e \<Rightarrow> None
              | Inr s \<Rightarrow> Some s))"

text \<open>
  \<open>encrypt\<close>. With \<open>VALINE_CRYPTO_SALT\<close> set, the salt string used for the key is the
  base64 text of \<open>saltLength\<close> bytes, each a byte of the configured salt XORed with one
  of 8 random bytes, followed by the salt passed in; the assignment is to the parameter
  \<open>salt\<close>, so the \<open>catch\<close> branch sees it too. Nothing before the assignment can throw.
\<close>

definition mixed_salt :: "bytes \<Rightarrow> bytes \<Rightarrow> nat \<Rightarrow> bytes" where
  "mixed_salt configSalt randomSalt n =
     map (\<lambda>i. cyclic configSalt i XOR cyclic randomSalt i) [0..<n]"

definition encrypt_salt :: "crypto_config \<Rightarrow> random_bytes \<Rightarrow> jsstring \<Rightarrow> jsstring \<times> random_bytes" where
  "encrypt_salt cfg rng salt =
     (let n = (case saltLength cfg of None \<Rightarrow> 16 | Some l \<Rightarrow> if l = 0 then 16 else l)
      in case configured_salt cfg of
           None \<Rightarrow> (salt, rng)
         | Some cs \<Rightarrow>
             (let (randomSalt, rng') = getRandomValues rng 8;
                  finalSalt = mixed_salt (TextEncoder_encode cs) randomSalt n
              in (arrayBufferToBase64 finalSalt @ salt, rng')))"

text \<open>The rest of the \<open>try\<close> block of \<open>encrypt\<close>, from the key derivation on.\<close>

definition encrypt_primary ::
  "host \<Rightarrow> crypto_config \<Rightarrow> random_bytes \<Rightarrow> jsstring \<Rightarrow> jsstring \<Rightarrow> jsstring \<Rightarrow> js_error + jsstring" where
  "encrypt_primary h cfg rng text masterKey salt =
     (case generateStrongKey h cfg masterKey salt of
        Inl e \<Rightarrow> Inl e
      | Inr key \<Rightarrow>
          (let data = TextEncoder_encode text;
               iv = fst (getRandomValues rng IV_LENGTH)
           in case subtle h of
                None \<Rightarrow> Inl TypeError
              | Some w \<Rightarrow>
                  (case gcm_encrypt w key iv data of
                     Inl e \<Rightarrow> Inl e
                   | Inr encrypted \<Rightarrow> Inr (arrayBufferToBase64 (iv @ encrypted)))))"

definition encrypt ::
  "host \<Rightarrow> crypto_config \<Rightarrow> random_bytes \<Rightarrow> jsstring \<Rightarrow> jsstring \<Rightarrow> jsstring \<Rightarrow> jsstring
     \<Rightarrow> js_error + jsstring" where
  "encrypt h cfg rng randomSuffix text masterKey salt =
     (let (salt', rng') = encrypt_salt cfg rng salt
      in case encrypt_primary h cfg rng' text masterKey salt' of
           Inr result \<Rightarrow> Inr result
         | Inl error \<Rightarrow> fallbackEncrypt cfg randomSuffix text masterKey salt')"

text \<open>
  \<open>decrypt\<close>. With \<open>VALINE_CRYPTO_SALT\<close> set, the salt string for the key is the base64
  text of the configured salt followed by the salt passed in; the decoding of the last
  12 characters of \<open>salt\<close> can throw and its result is not used.
\<close>

definition decrypt_salt :: "crypto_config \<Rightarrow> jsstring \<Rightarrow> js_error + jsstring" where
  "decrypt_salt cfg salt =
     (case configured_salt cfg of
        None \<Rightarrow> Inr salt
      | Some cs \<Rightarrow>
          (case base64ToArrayBuffer (substring_from salt (length salt - 12)) of
             Inl e \<Rightarrow> Inl e
           | Inr randomSalt \<Rightarrow> Inr (arrayBufferToBase64 (TextEncoder_encode cs) @ salt)))"

definition decrypt_primary ::
  "host \<Rightarrow> crypto_config \<Rightarrow> jsstring \<Rightarrow> jsstring \<Rightarrow> jsstring \<Rightarrow> jsstring
     \<Rightarrow> js_error + jsstring option" where
  "decrypt_primary h cfg randomSuffix encryptedBase64 masterKey salt =
     (case atob encryptedBase64 of
        Inl e \<Rightarrow> Inl e
      | Inr decoded \<Rightarrow>
          if startsWith decoded FALLBACK_MARKER
          then Inr (fallbackDecrypt cfg randomSuffix encryptedBase64 masterKey salt)
          else
            (case decrypt_salt cfg salt of
               Inl e \<Rightarrow> Inl e
             | Inr finalSalt \<Rightarrow>
                 (case generateStrongKey h cfg masterKey finalSalt of
                    Inl e \<Rightarrow> Inl e
                  | Inr key \<Rightarrow>
                      (case base64ToArrayBuffer encryptedBase64 of
                         Inl e \<Rightarrow> Inl e
                       | Inr encryptedData \<Rightarrow>
                           (let iv = take IV_LENGTH encryptedData;
                                data = drop IV_LENGTH encryptedData
                            in case subtle h of
                                 None \<Rightarrow> Inl TypeError
                               | Some w \<Rightarrow>
                                   (case gcm_decrypt w key iv data of
                                      Inl e \<Rightarrow> Inl e
                                    | Inr decrypted \<Rightarrow>
                                        Inr (Some (TextDecoder_decode h decrypted))))))))"

definition decrypt ::
  "host \<Rightarrow> crypto_config \<Rightarrow> jsstring \<Rightarrow> jsstring \<Rightarrow> jsstring \<Rightarrow> jsstring \<Rightarrow> jsstring option" where
  "decrypt h cfg randomSuffix encryptedBase64 masterKey salt =
     (case decrypt_primary h cfg randomSuffix encryptedBase64 masterKey salt of
        Inr result \<Rightarrow> result
      | Inl error \<Rightarrow> fallbackDecrypt cfg randomSuffix encryptedBase64 masterKey salt)"

section \<open>ValineCrypto\<close>

text \<open>
  The click handler of \<open>bindSubmitHandler\<close>, with the encryption box checked: it trims
  the text, alerts and returns when nothing is left, and otherwise writes the marker
  followed by the result of \<open>encrypt\<close> into the text area; an exception is alerted.
\<close>

datatype submit_alert = EmptyContent | EncryptError js_error

definition submitEncrypted ::
  "host \<Rightarrow> crypto_config \<Rightarrow> random_bytes \<Rightarrow> jsstring \<Rightarrow> jsstring \<Rightarrow> jsstring \<Rightarrow> jsstring
     \<Rightarrow> submit_alert + jsstring" where
  "submitEncrypted h cfg rng randomSuffix masterKey salt textarea_value =
     (let content = trim textarea_value
      in if content = [] then Inl EmptyContent
         else (case encrypt h cfg rng randomSuffix content masterKey salt of
                 Inl e \<Rightarrow> Inl (EncryptError e)
               | Inr encrypted \<Rightarrow> Inr (ENCRYPTION_MARKER @ encrypted)))"

text \<open>
  \<open>processComments\<close>, for one comment: the text is trimmed, and only a text that then
  starts with the marker goes to \<open>handleEncryptedComment\<close>, with the rest of the text as
  the encrypted data. Every other comment is left as it is.
\<close>

datatype classification = NotEncoded | Encoded jsstring

definition processComment :: "jsstring \<Rightarrow> classification" where
  "processComment textContent =
     (let text = trim textContent
      in if startsWith text ENCRYPTION_MARKER
         then Encoded (substring_from text (length ENCRYPTION_MARKER))
         else NotEncoded)"

text \<open>
  \<open>handleEncryptedComment\<close> and \<open>attemptDecryption\<close>: without a master key, or when
  \<open>decrypt\<close> returns \<open>null\<close> or the empty string, the comment shows the locked display;
  otherwise its text becomes what \<open>decrypt\<close> returned.
\<close>

datatype display = Decrypted jsstring | Locked

definition handleEncryptedComment ::
  "host \<Rightarrow> crypto_config \<Rightarrow> jsstring \<Rightarrow> jsstring \<Rightarrow> jsstring \<Rightarrow> jsstring \<Rightarrow> display" where
  "handleEncryptedComment h cfg randomSuffix masterKey salt encryptedData =
     (if masterKey = [] then Locked
      else (case decrypt h cfg randomSuffix encryptedData masterKey salt of
              None \<Rightarrow> Locked
            | Some decrypted \<Rightarrow> if decrypted = [] then Locked else Decrypted decrypted))"

section \<open>The layout the specification describes\<close>

text \<open>
  The specification's wire format for the primary family, in its words: the bytes
  \<open>VERSION || SALT_LEN || SALT || NONCE || CIPHERTEXT_AND_TAG\<close>. It is here to be
  compared with what \<open>encrypt\<close> assembles.
\<close>

definition spec_primary_layout :: "8 word \<Rightarrow> bytes \<Rightarrow> bytes \<Rightarrow> bytes \<Rightarrow> bytes" where
  "spec_primary_layout version salt nonce ciphertext_and_tag =
     version # of_nat (length salt) # salt @ nonce @ ciphertext_and_tag"

section \<open>A host to run the model on\<close>

text \<open>
  A stand-in for a browser, to evaluate the definitions at concrete inputs. Its
  \<open>pbkdf2\<close> rejects an iteration count outside 1 .. 4294967295, as \<open>deriveKey\<close> does,
  and otherwise returns the first bytes of the password followed by the salt, padded
  with zeros. Its cipher XORs every byte with the first key byte and appends the first
  16 key bytes as the tag; decryption checks the tag and throws \<open>OperationError\<close> on a
  mismatch. \<open>plain_host\<close> is a browser without \<open>crypto.subtle\<close>.
\<close>

definition toy_pbkdf2 :: "bytes \<Rightarrow> bytes \<Rightarrow> int \<Rightarrow> nat \<Rightarrow> js_error + bytes" where
  "toy_pbkdf2 password salt iterations bits =
     (if iterations < 1 \<or> 4294967295 < iterations then Inl TypeError
      else Inr (take (bits div 8) (password @ salt @ replicate (bits div 8) 0)))"

definition toy_tag :: "bytes \<Rightarrow> bytes" where
  "toy_tag key = take 16 (key @ replicate 16 0)"

definition toy_gcm_encrypt :: "bytes \<Rightarrow> bytes \<Rightarrow> bytes \<Rightarrow> js_error + bytes" where
  "toy_gcm_encrypt key iv data = Inr (map (\<lambda>b. b XOR cyclic key 0) data @ toy_tag key)"

definition toy_gcm_decrypt :: "bytes \<Rightarrow> bytes \<Rightarrow> bytes \<Rightarrow> js_error + bytes" where
  "toy_gcm_decrypt key iv data =
     (if 16 \<le> length data \<and> drop (length data - 16) data = toy_tag key
      then Inr (map (\<lambda>b. b XOR cyclic key 0) (take (length data - 16) data))
      else Inl OperationError)"

definition toy_webcrypto :: webcrypto where
  "toy_webcrypto =
     \<lparr>pbkdf2 = toy_pbkdf2, gcm_encrypt = toy_gcm_encrypt, gcm_decrypt = toy_gcm_decrypt\<rparr>"

definition toy_host :: host where
  "toy_host = \<lparr>subtle = Some toy_webcrypto, replacement_decode = (\<lambda>bs. [0xFFFD])\<rparr>"

definition plain_host :: host where
  "plain_host = \<lparr>subtle = None, replacement_decode = (\<lambda>bs. [0xFFFD])\<rparr>"

text \<open>
  \<open>default_config\<close> is a page that sets nothing; \<open>repository_config\<close> has the values of
  the repository's configuration file (salt length 16, 100000 iterations, no
  \<open>VALINE_CRYPTO_SALT\<close>); \<open>salted_config\<close> is a deployment that sets
  \<open>VALINE_CRYPTO_SALT\<close> to \<open>s\<close>.
\<close>

definition default_config :: crypto_config where
  "default_config = \<lparr>VALINE_CRYPTO_SALT = None, saltLength = None, pbkdf2Iterations = None\<rparr>"

definition repository_config :: crypto_config where
  "repository_config =
     \<lparr>VALINE_CRYPTO_SALT = None, saltLength = Some 16, pbkdf2Iterations = Some 100000\<rparr>"

definition salted_config :: crypto_config where
  "salted_config =
     \<lparr>VALINE_CRYPTO_SALT = Some (js ''s''), saltLength = Some 16, pbkdf2Iterations = Some 100000\<rparr>"

text \<open>\<open>bad_iterations_config\<close> sets \<open>pbkdf2Iterations\<close> to -1, which \<open>deriveKey\<close> rejects.\<close>

definition bad_iterations_config :: crypto_config where
  "bad_iterations_config =
     \<lparr>VALINE_CRYPTO_SALT = None, saltLength = None, pbkdf2Iterations = Some (- 1)\<rparr>"

text \<open>
  Two random sources: \<open>letters_rng\<close> yields the bytes 65, 66, 67, ...; \<open>marker_rng\<close>
  yields the nine bytes of \<open>FALLBACK:\<close> and then 65 forever.
\<close>

definition letters_rng :: random_bytes where
  "letters_rng i = of_nat (65 + i)"

definition marker_rng :: random_bytes where
  "marker_rng i = (if i < 9 then [0x46, 0x41, 0x4C, 0x4C, 0x42, 0x41, 0x43, 0x4B, 0x3A] ! i else 65)"

section \<open>StorageManager: the remembered key\<close>

text \<open>
  \<open>localStorage\<close> is a map from item names to strings. \<open>saveKey\<close> stores the base64 text
  of the reversed key, or clears the item when \<open>remember\<close> is false; an exception of
  \<open>btoa\<close> is caught and leaves the store as it was. \<open>getKey\<close> returns \<open>null\<close> when the
  item is missing or is the empty string (\<open>!obfuscated\<close>), and when \<open>atob\<close> throws.
  The host's store is taken to accept every write.
\<close>

type_synonym localStorage = "jsstring \<rightharpoonup> jsstring"

definition KEY_STORAGE_NAME :: jsstring where
  "KEY_STORAGE_NAME = js ''valine_crypto_master_key''"

definition clearKey :: "localStorage \<Rightarrow> localStorage" where
  "clearKey st = st(KEY_STORAGE_NAME := None)"

definition saveKey :: "localStorage \<Rightarrow> jsstring \<Rightarrow> bool \<Rightarrow> localStorage" where
  "saveKey st key remember =
     (if \<not> remember then clearKey st
      else (case btoa (rev key) of
              Inr obfuscated \<Rightarrow> st(KEY_STORAGE_NAME \<mapsto> obfuscated)
            | Inl e \<Rightarrow> st))"

definition getKey :: "localStorage \<Rightarrow> jsstring option" where
  "getKey st =
     (case st KEY_STORAGE_NAME of
        None \<Rightarrow> None
      | Some obfuscated \<Rightarrow>
          if obfuscated = [] then None
          else (case atob obfuscated of Inr d \<Rightarrow> Some (rev d) | Inl e \<Rightarrow> None))"

section \<open>Base64: \<open>atob\<close> inverts \<open>btoa\<close>\<close>

lemma b64_val_char: "n < 64 \<Longrightarrow> b64_val (b64_char n) = Some n"
  by (auto simp: b64_val_def b64_char_def Let_def unat_of_nat)

lemma unat_b64_char:
  "n < 64 \<Longrightarrow> unat (b64_char n) =
     (if n < 26 then 65 + n else if n < 52 then 71 + n
      else if n < 62 then n - 4 else if n = 62 then 43 else 47)"
  by (simp add: b64_char_def unat_of_nat)

lemma b64_char_not_pad: "n < 64 \<Longrightarrow> b64_char n \<noteq> 61"
proof
  assume n: "n < 64" and "b64_char n = 61"
  then have "unat (b64_char n) = 61" by simp
  with n show False by (simp add: unat_b64_char split: if_splits)
qed

lemma b64_char_not_ws: "n < 64 \<Longrightarrow> \<not> is_ascii_ws (b64_char n)"
proof
  assume n: "n < 64" and "is_ascii_ws (b64_char n)"
  then have "unat (b64_char n) \<in> {9, 10, 12, 13, 32}"
    by (auto simp: is_ascii_ws_def)
  with n show False by (auto simp: unat_b64_char split: if_splits)
qed

lemma b64_sextets_bound:
  "list_all (\<lambda>b. b < 256) bs \<Longrightarrow> list_all (\<lambda>s. s < 64) (b64_sextets bs)"
  by (induction bs rule: b64_sextets.induct) auto

lemma b64_bytes_sextets:
  "list_all (\<lambda>b. b < 256) bs \<Longrightarrow> b64_bytes (b64_sextets bs) = bs"
  by (induction bs rule: b64_sextets.induct) auto

lemma b64_groups_eq:
  "b64_groups bs = map b64_char (b64_sextets bs) @ replicate ((3 - length bs mod 3) mod 3) 61"
proof (induction bs rule: b64_sextets.induct)
  case (4 a b c rest)
  have "Suc (Suc (Suc (length rest))) mod 3 = length rest mod 3"
    by (metis add_Suc_right mod_add_self2 numeral_3_eq_3 plus_nat.add_0 add.commute)
  with 4 show ?case by simp
qed (simp_all add: numeral_2_eq_2)

lemma length_b64_sextets_mod: "length (b64_sextets bs) mod 4 \<noteq> 1"
  by (induction bs rule: b64_sextets.induct) auto

lemma length_b64_groups: "length (b64_groups bs) mod 4 = 0"
  by (induction bs rule: b64_sextets.induct) auto

lemma strip_padding_replicate:
  "k \<le> 2 \<Longrightarrow> xs = [] \<or> last xs \<noteq> 61 \<Longrightarrow> strip_padding (xs @ replicate k 61) = xs"
proof -
  assume k: "k \<le> 2" and xs: "xs = [] \<or> last xs \<noteq> 61"
  from k have "k = 0 \<or> k = 1 \<or> k = 2" by arith
  then show ?thesis
    using xs by (auto simp: strip_padding_def numeral_2_eq_2 butlast_append)
qed

lemma those_b64_val:
  "list_all (\<lambda>s. s < 64) ss \<Longrightarrow> those (map b64_val (map b64_char ss)) = Some ss"
  by (induction ss) (auto simp: b64_val_char)

lemma atob_b64_groups:
  assumes "list_all (\<lambda>b. b < 256) bs"
  shows "atob (b64_groups bs) = Inr (map of_nat bs)"
proof -
  let ?ss = "b64_sextets bs"
  let ?cs = "map b64_char ?ss"
  let ?k = "(3 - length bs mod 3) mod 3"
  have ss: "list_all (\<lambda>s. s < 64) ?ss"
    using assms by (rule b64_sextets_bound)
  have pad: "\<not> is_ascii_ws 61"
    by (simp add: is_ascii_ws_def)
  have "\<forall>c\<in>set (b64_groups bs). \<not> is_ascii_ws c"
    using ss pad by (auto simp: b64_groups_eq list_all_iff dest: b64_char_not_ws)
  then have nows: "filter (\<lambda>c. \<not> is_ascii_ws c) (b64_groups bs) = b64_groups bs"
    by (simp add: filter_id_conv)
  have last: "?cs = [] \<or> last ?cs \<noteq> 61"
    using ss by (cases "?ss = []") (auto simp: last_map list_all_iff b64_char_not_pad)
  have strip: "strip_padding (b64_groups bs) = ?cs"
    unfolding b64_groups_eq using last by (intro strip_padding_replicate) auto
  have vals: "those (map b64_val ?cs) = Some ?ss"
    using ss by (rule those_b64_val)
  have len: "length ?cs mod 4 \<noteq> 1"
    using length_b64_sextets_mod [of bs] by simp
  have len0: "length (b64_groups bs) mod 4 = 0"
    by (rule length_b64_groups)
  have bytes: "b64_bytes ?ss = bs"
    using assms by (rule b64_bytes_sextets)
  have "atob (b64_groups bs) =
      (if length ?cs mod 4 = 1 then Inl InvalidCharacterError
       else (case those (map b64_val ?cs) of
                 None \<Rightarrow> Inl InvalidCharacterError
               | Some v \<Rightarrow> Inr (map of_nat (b64_bytes v))))"
    unfolding atob_def Let_def nows by (simp only: len0 strip if_True simp_thms)
  also have "\<dots> = Inr (map of_nat bs)"
    using len by (simp only: vals bytes if_False option.case)
  finally show ?thesis .
qed

lemma latin1_unat: "latin1 s \<Longrightarrow> list_all (\<lambda>b. b < 256) (map unat s)"
  by (auto simp: latin1_def list_all_iff word_le_nat_alt)

lemma atob_btoa: "btoa s = Inr e \<Longrightarrow> atob e = Inr s"
proof -
  assume "btoa s = Inr e"
  then have l: "latin1 s" and e: "e = b64_groups (map unat s)"
    by (auto simp: btoa_def split: if_splits)
  have "map of_nat (map unat s) = s"
    by (simp add: map_idI)
  then show ?thesis
    using atob_b64_groups [OF latin1_unat [OF l]] e by simp
qed

lemma btoa_latin1: "latin1 s \<Longrightarrow> \<exists>e. btoa s = Inr e"
  by (simp add: btoa_def)

lemma btoa_empty: "btoa [] = Inr []"
  by (simp add: btoa_def latin1_def)

section \<open>UTF-8: decoding inverts encoding\<close>

lemma split3: "(cp::nat) div 4096 * 4096 + cp div 64 mod 64 * 64 + cp mod 64 = cp"
proof -
  have "cp mod 4096 = 64 * (cp div 64 mod 64) + cp mod 64"
    using mod_mult2_eq [of cp 64 64] by simp
  then show ?thesis
    using div_mult_mod_eq [of cp 4096] by simp
qed

lemma split4:
  "(cp::nat) div 262144 * 262144 + cp div 4096 mod 64 * 4096 + cp div 64 mod 64 * 64 + cp mod 64 = cp"
proof -
  have "cp mod 262144 = 4096 * (cp div 4096 mod 64) + cp mod 4096"
    using mod_mult2_eq [of cp 4096 64] by simp
  moreover have "cp mod 4096 = 64 * (cp div 64 mod 64) + cp mod 64"
    using mod_mult2_eq [of cp 64 64] by simp
  ultimately show ?thesis
    using div_mult_mod_eq [of cp 262144] by simp
qed

lemma mod64_le: "(n::nat) mod 64 \<le> 63"
proof -
  have "n mod 64 < 64" by simp
  then show ?thesis by linarith
qed

lemma utf8_decode_bytes2:
  "a \<le> 31 \<Longrightarrow> 2 \<le> a \<Longrightarrow> b \<le> 63 \<Longrightarrow>
   utf8_decode ((0xC0 + a) # (0x80 + b) # rest) = map_option ((#) (a * 64 + b)) (utf8_decode rest)"
  by (simp add: is_cont_def)

lemma utf8_decode_bytes3:
  "a \<le> 15 \<Longrightarrow> b \<le> 63 \<Longrightarrow> c \<le> 63 \<Longrightarrow> 0x800 \<le> a * 4096 + b * 64 + c \<Longrightarrow>
   \<not> (0xD800 \<le> a * 4096 + b * 64 + c \<and> a * 4096 + b * 64 + c \<le> 0xDFFF) \<Longrightarrow>
   utf8_decode ((0xE0 + a) # (0x80 + b) # (0x80 + c) # rest) =
     map_option ((#) (a * 4096 + b * 64 + c)) (utf8_decode rest)"
  by (simp add: is_cont_def Let_def)

lemma utf8_decode_bytes4:
  "a \<le> 4 \<Longrightarrow> b \<le> 63 \<Longrightarrow> c \<le> 63 \<Longrightarrow> d \<le> 63 \<Longrightarrow>
   0x10000 \<le> a * 262144 + b * 4096 + c * 64 + d \<Longrightarrow>
   a * 262144 + b * 4096 + c * 64 + d \<le> 0x10FFFF \<Longrightarrow>
   utf8_decode ((0xF0 + a) # (0x80 + b) # (0x80 + c) # (0x80 + d) # rest) =
     map_option ((#) (a * 262144 + b * 4096 + c * 64 + d)) (utf8_decode rest)"
  by (simp add: is_cont_def Let_def)

lemma utf8_decode_of_cp:
  assumes "cp < 0x110000" and "\<not> (0xD800 \<le> cp \<and> cp \<le> 0xDFFF)"
  shows "utf8_decode (utf8_of_cp cp @ rest) = map_option ((#) cp) (utf8_decode rest)"
proof -
  consider "cp < 0x80" | "0x80 \<le> cp" "cp < 0x800" | "0x800 \<le> cp" "cp < 0x10000"
    | "0x10000 \<le> cp"
    by linarith
  then show ?thesis
  proof cases
    case 1
    then show ?thesis by (simp add: utf8_of_cp_def)
  next
    case 2
    have eq: "cp div 64 * 64 + cp mod 64 = cp" by simp
    have "cp div 64 \<le> 31" "2 \<le> cp div 64"
      using 2 eq mod64_le [of cp] by linarith+
    then have "utf8_decode ((0xC0 + cp div 64) # (0x80 + cp mod 64) # rest) =
        map_option ((#) (cp div 64 * 64 + cp mod 64)) (utf8_decode rest)"
      by (intro utf8_decode_bytes2 mod64_le)
    with 2 show ?thesis by (simp add: utf8_of_cp_def)
  next
    case 3
    let ?a = "cp div 4096" and ?b = "cp div 64 mod 64" and ?c = "cp mod 64"
    have eq: "?a * 4096 + ?b * 64 + ?c = cp" by (rule split3)
    have a: "?a \<le> 15" using 3 eq by linarith
    have "utf8_decode ((0xE0 + ?a) # (0x80 + ?b) # (0x80 + ?c) # rest) =
        map_option ((#) (?a * 4096 + ?b * 64 + ?c)) (utf8_decode rest)"
    proof (intro utf8_decode_bytes3 mod64_le a)
      show "0x800 \<le> ?a * 4096 + ?b * 64 + ?c"
        unfolding eq using 3 by simp
      show "\<not> (0xD800 \<le> ?a * 4096 + ?b * 64 + ?c \<and> ?a * 4096 + ?b * 64 + ?c \<le> 0xDFFF)"
        unfolding eq using assms(2) by simp
    qed
    with 3 show ?thesis by (simp add: utf8_of_cp_def eq)
  next
    case 4
    let ?a = "cp div 262144" and ?b = "cp div 4096 mod 64" and ?c = "cp div 64 mod 64"
      and ?d = "cp mod 64"
    have eq: "?a * 262144 + ?b * 4096 + ?c * 64 + ?d = cp" by (rule split4)
    have a: "?a \<le> 4" using assms(1) eq by linarith
    have "utf8_decode ((0xF0 + ?a) # (0x80 + ?b) # (0x80 + ?c) # (0x80 + ?d) # rest) =
        map_option ((#) (?a * 262144 + ?b * 4096 + ?c * 64 + ?d)) (utf8_decode rest)"
    proof (intro utf8_decode_bytes4 mod64_le a)
      show "0x10000 \<le> ?a * 262144 + ?b * 4096 + ?c * 64 + ?d"
        unfolding eq using 4 by simp
      show "?a * 262144 + ?b * 4096 + ?c * 64 + ?d \<le> 0x10FFFF"
        unfolding eq using assms(1) by simp
    qed
    with 4 show ?thesis by (simp add: utf8_of_cp_def eq)
  qed
qed


lemma utf8_of_cp_bytes: "cp < 0x110000 \<Longrightarrow> list_all (\<lambda>b. b < 256) (utf8_of_cp cp)"
proof -
  assume cp: "cp < 0x110000"
  have "cp div 64 * 64 + cp mod 64 = cp" by simp
  moreover note split3 [of cp] split4 [of cp] mod64_le [of cp] mod64_le [of "cp div 64"]
    mod64_le [of "cp div 4096"]
  ultimately show ?thesis
    using cp by (auto simp: utf8_of_cp_def)
qed

lemma surrogate_unat:
  "is_lead u \<longleftrightarrow> 0xD800 \<le> unat u \<and> unat u \<le> 0xDBFF"
  "is_trail u \<longleftrightarrow> 0xDC00 \<le> unat u \<and> unat u \<le> 0xDFFF"
  by (simp_all add: is_lead_def is_trail_def word_le_nat_alt)

lemma unat_unit_lt16: "unat (u :: 16 word) < 0x10000"
proof -
  have "unat u < 2 ^ LENGTH(16)" by (rule unsigned_less)
  then show ?thesis by simp
qed

lemma unat_unit_lt: "unat (u :: 16 word) < 0x110000"
  using unat_unit_lt16 [of u] by simp

lemma utf16_single:
  "\<not> is_lead u \<Longrightarrow> \<not> is_trail u \<Longrightarrow>
   \<not> (0xD800 \<le> unat u \<and> unat u \<le> 0xDFFF) \<and> utf16_of_cp (unat u) = [u]"
  using unat_unit_lt16 [of u] by (auto simp: surrogate_unat utf16_of_cp_def)

lemma utf16_pair:
  assumes "is_lead u" and "is_trail v"
  shows "pair_cp u v < 0x110000 \<and> 0x10000 \<le> pair_cp u v \<and> utf16_of_cp (pair_cp u v) = [u, v]"
proof -
  let ?h = "unat u - 0xD800" and ?l = "unat v - 0xDC00"
  have h: "?h < 0x400" "0xD800 + ?h = unat u" and l: "?l < 0x400" "0xDC00 + ?l = unat v"
    using assms by (auto simp: surrogate_unat)
  have cp: "pair_cp u v - 0x10000 = ?h * 0x400 + ?l"
    by (simp add: pair_cp_def)
  have "(?h * 0x400 + ?l) div 0x400 = ?h" "(?h * 0x400 + ?l) mod 0x400 = ?l"
    using l(1) by simp_all
  then have "utf16_of_cp (pair_cp u v) = [of_nat (0xD800 + ?h), of_nat (0xDC00 + ?l)]"
    unfolding utf16_of_cp_def cp by (simp add: pair_cp_def)
  then have "utf16_of_cp (pair_cp u v) = [u, v]"
    unfolding h(2) l(2) by simp
  moreover have "pair_cp u v < 0x110000" "0x10000 \<le> pair_cp u v"
    using h(1) l(1) by (simp_all add: pair_cp_def)
  ultimately show ?thesis by simp
qed

lemma utf8_strict_bytes: "utf8_strict s = Some bs \<Longrightarrow> list_all (\<lambda>b. b < 256) bs"
proof (induction s arbitrary: bs rule: utf8_strict.induct)
  case 1
  then show ?case by simp
next
  case (2 u)
  then show ?case
    using utf8_of_cp_bytes [OF unat_unit_lt [of u]] by (auto split: if_splits)
next
  case (3 u v vs)
  then show ?case
    using utf8_of_cp_bytes [OF unat_unit_lt [of u]] utf16_pair [of u v]
    by (auto split: if_splits simp: utf8_of_cp_bytes)
qed

lemma utf8_strict_decode:
  "utf8_strict s = Some bs \<Longrightarrow>
   map_option (\<lambda>cps. concat (map utf16_of_cp cps)) (utf8_decode bs) = Some s"
proof (induction s arbitrary: bs rule: utf8_strict.induct)
  case 1
  then show ?case by simp
next
  case (2 u)
  then have u: "\<not> is_lead u" "\<not> is_trail u" and bs: "bs = utf8_of_cp (unat u) @ []"
    by (auto split: if_splits)
  note p = utf16_single [OF u]
  have "utf8_decode bs = map_option ((#) (unat u)) (utf8_decode [])"
    unfolding bs using p unat_unit_lt [of u] by (intro utf8_decode_of_cp) auto
  then show ?case
    using p by simp
next
  case (3 u v vs)
  show ?case
  proof (cases "is_lead u")
    case True
    with 3(3) obtain bs' where v: "is_trail v" and bs': "utf8_strict vs = Some bs'"
      and bs: "bs = utf8_of_cp (pair_cp u v) @ bs'"
      by (auto split: if_splits)
    note p = utf16_pair [OF True v]
    have "utf8_decode bs = map_option ((#) (pair_cp u v)) (utf8_decode bs')"
      unfolding bs using p by (intro utf8_decode_of_cp) auto
    then show ?thesis
      using "3.IH"(1) [OF True v bs'] p by (auto simp: option.map_comp comp_def)
  next
    case False
    with 3(3) obtain bs' where u: "\<not> is_trail u" and bs': "utf8_strict (v # vs) = Some bs'"
      and bs: "bs = utf8_of_cp (unat u) @ bs'"
      by (auto split: if_splits)
    note p = utf16_single [OF False u]
    have "utf8_decode bs = map_option ((#) (unat u)) (utf8_decode bs')"
      unfolding bs using p unat_unit_lt [of u] by (intro utf8_decode_of_cp) auto
    then show ?thesis
      using "3.IH"(2) [OF False u bs'] p by (auto simp: option.map_comp comp_def)
  qed
qed

lemma well_formed_utf8_strict: "well_formed s \<Longrightarrow> utf8_strict s = Some (utf8_lossy s)"
  by (induction s rule: utf8_strict.induct) auto

lemma map_unat_of_nat_bytes:
  "list_all (\<lambda>b. b < 256) bs \<Longrightarrow> map unat (map of_nat bs :: 8 word list) = bs"
  by (induction bs) (auto simp: unat_of_nat)

lemma map_unat_of_nat_units:
  "list_all (\<lambda>b. b < 256) bs \<Longrightarrow> map (\<lambda>b. unat (of_nat b :: 16 word)) bs = bs"
  by (induction bs) (auto simp: unat_of_nat)

lemma latin1_of_nat: "list_all (\<lambda>b. b < 256) bs \<Longrightarrow> latin1 (map of_nat bs)"
  by (induction bs) (auto simp: latin1_def word_le_nat_alt unat_of_nat)

lemma decodeURIComponent_escape_inverse:
  assumes "unescape_encodeURIComponent s = Inr t"
  shows "latin1 t \<and> decodeURIComponent_escape t = Inr s"
proof -
  from assms obtain bs where bs: "utf8_strict s = Some bs" and t: "t = map of_nat bs"
    by (auto simp: unescape_encodeURIComponent_def split: option.splits)
  note b = utf8_strict_bytes [OF bs]
  from utf8_strict_decode [OF bs] obtain cps where
    "utf8_decode bs = Some cps" "concat (map utf16_of_cp cps) = s"
    by auto
  then show ?thesis
    unfolding t using b
    by (simp add: decodeURIComponent_escape_def latin1_of_nat map_unat_of_nat_units comp_def)
qed

lemma well_formed_encodeURIComponent:
  "well_formed s \<Longrightarrow> \<exists>t. unescape_encodeURIComponent s = Inr t"
  by (simp add: unescape_encodeURIComponent_def well_formed_utf8_strict)


lemma utf8_of_cp_bom:
  assumes "take 3 (utf8_of_cp cp @ r) = [0xEF, 0xBB, 0xBF]" and "cp < 0x110000"
  shows "cp = 0xFEFF"
proof -
  consider "cp < 0x80" | "0x80 \<le> cp" "cp < 0x800" | "0x800 \<le> cp" "cp < 0x10000"
    | "0x10000 \<le> cp"
    by linarith
  then show ?thesis
  proof cases
    case 1
    with assms show ?thesis by (simp add: utf8_of_cp_def)
  next
    case 2
    have "cp div 64 * 64 + cp mod 64 = cp" by simp
    with 2 have "cp div 64 \<le> 31" by linarith
    with 2 assms show ?thesis by (simp add: utf8_of_cp_def)
  next
    case 3
    with assms have "cp div 4096 = 15" "cp div 64 mod 64 = 59" "cp mod 64 = 63"
      by (simp_all add: utf8_of_cp_def)
    with split3 [of cp] show ?thesis by simp
  next
    case 4
    with assms show ?thesis by (simp add: utf8_of_cp_def)
  qed
qed

lemma unit_eq_bom: "unat (u :: 16 word) = 0xFEFF \<Longrightarrow> u = 0xFEFF"
proof -
  assume "unat u = 0xFEFF"
  then have "of_nat (unat u) = (of_nat 0xFEFF :: 16 word)" by simp
  then show ?thesis by simp
qed

lemma utf8_strict_bom:
  assumes "utf8_strict s = Some bs" and "take 3 bs = [0xEF, 0xBB, 0xBF]"
  shows "take 1 s = [0xFEFF]"
proof (cases s rule: utf8_strict.cases)
  case 1
  with assms show ?thesis by simp
next
  case (2 u)
  with assms have "take 3 (utf8_of_cp (unat u) @ []) = [0xEF, 0xBB, 0xBF]"
    by (auto split: if_splits)
  from utf8_of_cp_bom [OF this unat_unit_lt] 2 show ?thesis
    by (simp add: unit_eq_bom)
next
  case (3 u v vs)
  show ?thesis
  proof (cases "is_lead u")
    case True
    with 3 assms obtain bs' where v: "is_trail v" and "bs = utf8_of_cp (pair_cp u v) @ bs'"
      by (auto split: if_splits)
    with assms(2) utf16_pair [OF True v] have "pair_cp u v = 0xFEFF"
      by (intro utf8_of_cp_bom) auto
    with utf16_pair [OF True v] show ?thesis by simp
  next
    case False
    with 3 assms obtain bs' where "bs = utf8_of_cp (unat u) @ bs'"
      by (auto split: if_splits)
    with assms(2) have "unat u = 0xFEFF"
      by (intro utf8_of_cp_bom unat_unit_lt) auto
    with 3 show ?thesis by (simp add: unit_eq_bom)
  qed
qed

lemma TextDecoder_TextEncoder:
  assumes wf: "well_formed s" and bom: "take 1 s \<noteq> [0xFEFF]"
  shows "TextDecoder_decode h (TextEncoder_encode s) = s"
proof -
  let ?bs = "utf8_lossy s"
  have strict: "utf8_strict s = Some ?bs"
    using wf by (rule well_formed_utf8_strict)
  note b = utf8_strict_bytes [OF strict]
  have un: "map unat (TextEncoder_encode s) = ?bs"
    unfolding TextEncoder_encode_def using b by (rule map_unat_of_nat_bytes)
  have "take 3 (TextEncoder_encode s) \<noteq> [0xEF, 0xBB, 0xBF]"
  proof
    assume "take 3 (TextEncoder_encode s) = [0xEF, 0xBB, 0xBF]"
    then have "map unat (take 3 (TextEncoder_encode s)) = map unat [0xEF, 0xBB, 0xBF :: 8 word]"
      by simp
    then have "take 3 ?bs = [0xEF, 0xBB, 0xBF]"
      by (simp add: take_map [symmetric] un)
    with utf8_strict_bom [OF strict] bom show False by simp
  qed
  moreover from utf8_strict_decode [OF strict] obtain cps where
    "utf8_decode ?bs = Some cps" "concat (map utf16_of_cp cps) = s"
    by auto
  ultimately show ?thesis
    by (simp add: TextDecoder_decode_def un)
qed

section \<open>The XOR rounds\<close>

lemma xor_le_255:
  fixes a b :: "16 word"
  assumes "a \<le> 255" and "b \<le> 255"
  shows "a XOR b \<le> 255"
proof -
  have m: "c \<le> 255 \<longleftrightarrow> c AND mask 8 = c" for c :: "16 word"
    by (auto simp: mask_eq_iff word_le_def)
  from assms have "a AND mask 8 = a" "b AND mask 8 = b"
    by (simp_all add: m)
  then have "(a XOR b) AND mask 8 = a XOR b"
    by (simp add: bit.conj_xor_distrib2)
  then show ?thesis
    by (simp add: m)
qed

lemma of_nat_le_255: "n \<le> 255 \<Longrightarrow> (of_nat n :: 16 word) \<le> 255"
  by (simp add: word_le_nat_alt unat_of_nat)

lemma length_xor_round [simp]: "length (xor_round k r t) = length t"
  by (simp add: xor_round_def)

lemma nth_xor_round:
  "i < length t \<Longrightarrow> xor_round k r t ! i = t ! i XOR cyclic k (i + r * 7) XOR of_nat (r + 1)"
  by (simp add: xor_round_def)

lemma xor_round_involution: "xor_round k r (xor_round k r t) = t"
  by (rule nth_equalityI) (simp_all add: nth_xor_round xor.assoc)

lemma xor_round_commute:
  "xor_round k r (xor_round k r' t) = xor_round k r' (xor_round k r t)"
  by (rule nth_equalityI) (simp_all add: nth_xor_round ac_simps)

lemma xor_rounds_inverse:
  "fold (xor_round k) [2, 1, 0] (fold (xor_round k) [0, 1, 2] t) = t"
proof -
  have "xor_round k 0 (xor_round k 1 (xor_round k 2 (xor_round k 2 (xor_round k 1 (xor_round k 0 t)))))
      = xor_round k 0 (xor_round k 1 (xor_round k 1 (xor_round k 0 t)))"
    by (simp only: xor_round_involution)
  also have "\<dots> = t"
    by (simp only: xor_round_involution)
  finally show ?thesis by simp
qed

lemma cyclic_latin1: "latin1 k \<Longrightarrow> cyclic k i \<le> 255"
  by (auto simp: cyclic_def latin1_def list_all_iff)

lemma latin1_xor_round: "latin1 k \<Longrightarrow> latin1 t \<Longrightarrow> r \<le> 2 \<Longrightarrow> latin1 (xor_round k r t)"
  unfolding latin1_def list_all_length
proof (intro allI impI)
  fix n
  assume k: "\<forall>n<length k. k ! n \<le> 255" and t: "\<forall>n<length t. t ! n \<le> 255"
    and r: "r \<le> 2" and n: "n < length (xor_round k r t)"
  have "cyclic k (n + r * 7) \<le> 255"
    using k by (intro cyclic_latin1) (simp add: latin1_def list_all_length)
  moreover have "(of_nat (r + 1) :: 16 word) \<le> 255"
    using r by (intro of_nat_le_255) simp
  moreover have "t ! n \<le> 255" using t n by simp
  ultimately show "xor_round k r t ! n \<le> 255"
    using n by (simp only: nth_xor_round length_xor_round xor_le_255)
qed

lemma latin1_append [simp]: "latin1 (a @ b) \<longleftrightarrow> latin1 a \<and> latin1 b"
  by (simp add: latin1_def)

lemma latin1_rev [simp]: "latin1 (rev a) \<longleftrightarrow> latin1 a"
  by (simp add: latin1_def)

lemma latin1_createEnhancedKey:
  "latin1 masterKey \<Longrightarrow> latin1 salt \<Longrightarrow> latin1 (createEnhancedKey masterKey salt)"
proof -
  assume "latin1 masterKey" "latin1 salt"
  then have "latin1 (masterKey @ salt @ rev masterKey)" by simp
  then show ?thesis
    unfolding createEnhancedKey_def Let_def latin1_def list_all_length
    by (auto intro!: xor_le_255 of_nat_le_255)
qed

lemma latin1_FALLBACK_MARKER: "latin1 FALLBACK_MARKER"
  by (simp add: FALLBACK_MARKER_def js_def latin1_def)

section \<open>Encoding and decoding\<close>

lemma bytes_lt_256: "list_all (\<lambda>b. b < 256) (map unat (bs :: bytes))"
proof -
  have "unat b < 256" for b :: "8 word"
    using unsigned_less [of b, where 'a = nat] by simp
  then show ?thesis by (simp add: list_all_iff)
qed

lemma atob_arrayBufferToBase64: "atob (arrayBufferToBase64 bs) = Inr (map ucast bs)"
  unfolding arrayBufferToBase64_def
  by (simp add: atob_b64_groups [OF bytes_lt_256] comp_def)

lemma is_js_ws_unat: "is_js_ws c \<Longrightarrow> unat c \<le> 32 \<or> 160 \<le> unat c"
  by (auto simp: is_js_ws_def word_le_nat_alt)

lemma b64_char_not_js_ws: "n < 64 \<Longrightarrow> \<not> is_js_ws (b64_char n)"
proof
  assume n: "n < 64" and w: "is_js_ws (b64_char n)"
  from w have "unat (b64_char n) \<le> 32 \<or> 160 \<le> unat (b64_char n)"
    by (rule is_js_ws_unat)
  with n show False by (auto simp: unat_b64_char split: if_splits)
qed

lemma b64_groups_no_js_ws:
  assumes "list_all (\<lambda>b. b < 256) bs"
  shows "\<forall>c\<in>set (b64_groups bs). \<not> is_js_ws c"
proof -
  have "\<not> is_js_ws 61" by (simp add: is_js_ws_def)
  then show ?thesis
    using b64_sextets_bound [OF assms]
    by (auto simp: b64_groups_eq list_all_iff dest: b64_char_not_js_ws)
qed

lemma trim_no_ws: "\<forall>c\<in>set s. \<not> is_js_ws c \<Longrightarrow> trim s = s"
proof -
  assume a: "\<forall>c\<in>set s. \<not> is_js_ws c"
  have d: "dropWhile is_js_ws t = t" if "\<forall>c\<in>set t. \<not> is_js_ws c" for t
    using that by (cases t) auto
  show ?thesis
    using a by (simp add: trim_def d)
qed

lemma remove_whitespace_no_ws: "\<forall>c\<in>set s. \<not> is_js_ws c \<Longrightarrow> remove_whitespace s = s"
  by (simp add: remove_whitespace_def filter_id_conv)

lemma ucast_bytes_inverse: "map (\<lambda>b. ucast (ucast b :: 16 word)) (bs :: bytes) = bs"
proof -
  have "ucast (ucast b :: 16 word) = b" for b :: "8 word"
    by (simp add: ucast_up_ucast_id is_up)
  then show ?thesis by simp
qed

lemma base64ToArrayBuffer_inverse: "base64ToArrayBuffer (arrayBufferToBase64 bs) = Inr bs"
proof -
  have "\<forall>c\<in>set (arrayBufferToBase64 bs). \<not> is_js_ws c"
    unfolding arrayBufferToBase64_def by (rule b64_groups_no_js_ws [OF bytes_lt_256])
  then show ?thesis
    by (simp add: base64ToArrayBuffer_def trim_no_ws remove_whitespace_no_ws
        atob_arrayBufferToBase64 ucast_bytes_inverse comp_def)
qed

lemma length_getRandomValues [simp]: "length (fst (getRandomValues rng n)) = n"
  by (simp add: getRandomValues_def)

lemma startsWith_append [simp]: "startsWith (p @ s) p"
  by (simp add: startsWith_def)

lemma fallback_roundtrip:
  assumes cfg: "configured_salt cfg = None"
    and wf: "well_formed text"
    and key: "latin1 masterKey" "latin1 salt"
  shows "\<exists>e. fallbackEncrypt cfg sfx text masterKey salt = Inr e \<and>
             decrypt h cfg sfx' e masterKey salt = Some text"
proof -
  let ?k = "createEnhancedKey masterKey salt"
  from well_formed_encodeURIComponent [OF wf] obtain t where
    t: "unescape_encodeURIComponent text = Inr t" ..
  note inv = decodeURIComponent_escape_inverse [OF t]
  let ?x = "fold (xor_round ?k) [0, 1, 2] t"
  have k: "latin1 ?k" using key by (rule latin1_createEnhancedKey)
  have "latin1 ?x"
    using inv k by (simp add: latin1_xor_round)
  then have "latin1 (FALLBACK_MARKER @ ?x)"
    by (simp add: latin1_FALLBACK_MARKER)
  then obtain e where e: "btoa (FALLBACK_MARKER @ ?x) = Inr e"
    using btoa_latin1 by blast
  have enc: "fallbackEncrypt cfg sfx text masterKey salt = Inr e"
    using cfg t e by (simp add: fallbackEncrypt_def fallback_salt_def)
  have dec: "atob e = Inr (FALLBACK_MARKER @ ?x)"
    using e by (rule atob_btoa)
  have "fold (xor_round ?k) [2, 1, 0] ?x = t"
    by (rule xor_rounds_inverse)
  then have "fallbackDecrypt cfg sfx' e masterKey salt = Some text"
    using cfg dec inv
    by (simp add: fallbackDecrypt_def fallback_salt_def substring_from_def Let_def)
  then have "decrypt h cfg sfx' e masterKey salt = Some text"
    using dec by (simp add: decrypt_def decrypt_primary_def)
  with enc show ?thesis by blast
qed

lemma encrypt_salt_default: "configured_salt cfg = None \<Longrightarrow> encrypt_salt cfg rng salt = (salt, rng)"
  by (simp add: encrypt_salt_def)

lemma encrypt_primary_Inr:
  "encrypt_primary h cfg rng text masterKey salt = Inr e \<longleftrightarrow>
     (\<exists>w key ct. subtle h = Some w \<and> generateStrongKey h cfg masterKey salt = Inr key \<and>
        gcm_encrypt w key (fst (getRandomValues rng IV_LENGTH)) (TextEncoder_encode text) = Inr ct \<and>
        e = arrayBufferToBase64 (fst (getRandomValues rng IV_LENGTH) @ ct))"
  by (auto simp: encrypt_primary_def Let_def split: sum.splits option.splits)

lemma length_FALLBACK_MARKER: "length FALLBACK_MARKER = 9"
  by (simp add: FALLBACK_MARKER_def js_def)

lemma primary_roundtrip:
  assumes cfg: "configured_salt cfg = None"
    and sub: "subtle h = Some w"
    and key: "generateStrongKey h cfg masterKey salt = Inr key"
    and enc: "gcm_encrypt w key (fst (getRandomValues rng IV_LENGTH)) (TextEncoder_encode text) = Inr ct"
    and dec: "gcm_decrypt w key (fst (getRandomValues rng IV_LENGTH)) ct = Inr (TextEncoder_encode text)"
    and nofb: "\<not> startsWith (map ucast (fst (getRandomValues rng IV_LENGTH))) FALLBACK_MARKER"
    and wf: "well_formed text" "take 1 text \<noteq> [0xFEFF]"
  shows "encrypt h cfg rng sfx text masterKey salt =
           Inr (arrayBufferToBase64 (fst (getRandomValues rng IV_LENGTH) @ ct)) \<and>
         decrypt h cfg sfx' (arrayBufferToBase64 (fst (getRandomValues rng IV_LENGTH) @ ct))
           masterKey salt = Some text"
proof -
  let ?iv = "fst (getRandomValues rng IV_LENGTH)"
  let ?e = "arrayBufferToBase64 (?iv @ ct)"
  have len: "length ?iv = 12" by (simp add: IV_LENGTH_def)
  have "encrypt_primary h cfg rng text masterKey salt = Inr ?e"
    using sub key enc by (auto simp: encrypt_primary_Inr)
  then have e: "encrypt h cfg rng sfx text masterKey salt = Inr ?e"
    by (simp add: encrypt_def encrypt_salt_default [OF cfg])
  have a: "atob ?e = Inr (map ucast ?iv @ map ucast ct)"
    by (simp add: atob_arrayBufferToBase64)
  have "take 9 (map ucast ?iv @ map ucast ct) = take 9 (map ucast ?iv :: jsstring)"
    using len by (simp add: IV_LENGTH_def)
  then have nf: "\<not> startsWith (map ucast ?iv @ map ucast ct) FALLBACK_MARKER"
    using nofb by (simp only: startsWith_def length_FALLBACK_MARKER simp_thms)
  have split: "take IV_LENGTH (?iv @ ct) = ?iv" "drop IV_LENGTH (?iv @ ct) = ct"
    by simp_all
  have "decrypt_primary h cfg sfx' ?e masterKey salt = Inr (Some (TextDecoder_decode h (TextEncoder_encode text)))"
    unfolding decrypt_primary_def a
    using nf cfg key sub dec
    by (simp add: decrypt_salt_def base64ToArrayBuffer_inverse Let_def split del: if_split)
  then have "decrypt h cfg sfx' ?e masterKey salt = Some text"
    by (simp add: decrypt_def TextDecoder_TextEncoder [OF wf])
  with e show ?thesis by simp
qed

lemma js_simps:
  "js [] = []"
  "js (c # cs) = of_nat (of_char c) # js cs"
  by (simp_all add: js_def)

lemma encrypt_fallback:
  "configured_salt cfg = None \<Longrightarrow> encrypt_primary h cfg rng text masterKey salt = Inl err \<Longrightarrow>
   encrypt h cfg rng sfx text masterKey salt = fallbackEncrypt cfg sfx text masterKey salt"
  by (simp add: encrypt_def encrypt_salt_default)

lemma fallback_salt_default: "configured_salt cfg = None \<Longrightarrow> fallback_salt cfg sfx salt = salt"
  by (simp add: fallback_salt_def)

lemma substring_marker: "substring_from (FALLBACK_MARKER @ x) (length FALLBACK_MARKER) = x"
  by (simp add: substring_from_def)

lemma decrypt_salt_default: "configured_salt cfg = None \<Longrightarrow> decrypt_salt cfg salt = Inr salt"
  by (simp add: decrypt_salt_def)

lemma decrypt_of_payload:
  assumes cfg: "configured_salt cfg = None"
    and sub: "subtle h = Some w"
    and key: "generateStrongKey h cfg masterKey salt = Inr key"
    and len: "length iv = IV_LENGTH"
    and nofb: "\<not> startsWith (map ucast iv) FALLBACK_MARKER"
  shows "decrypt h cfg sfx (arrayBufferToBase64 (iv @ ct)) masterKey salt =
           (case gcm_decrypt w key iv ct of
              Inr d \<Rightarrow> Some (TextDecoder_decode h d)
            | Inl e \<Rightarrow> fallbackDecrypt cfg sfx (arrayBufferToBase64 (iv @ ct)) masterKey salt)"
proof -
  let ?e = "arrayBufferToBase64 (iv @ ct)"
  have a: "atob ?e = Inr (map ucast iv @ map ucast ct)"
    by (simp add: atob_arrayBufferToBase64)
  have "take 9 (map ucast iv @ map ucast ct) = take 9 (map ucast iv :: jsstring)"
    using len by (simp add: IV_LENGTH_def)
  then have nf: "\<not> startsWith (map ucast iv @ map ucast ct) FALLBACK_MARKER"
    using nofb by (simp only: startsWith_def length_FALLBACK_MARKER simp_thms)
  have "decrypt_primary h cfg sfx ?e masterKey salt =
      (case gcm_decrypt w key iv ct of
         Inr d \<Rightarrow> Inr (Some (TextDecoder_decode h d))
       | Inl e \<Rightarrow> Inl e)"
    unfolding decrypt_primary_def a
    using nf cfg key sub len
    by (simp add: decrypt_salt_def base64ToArrayBuffer_inverse Let_def split del: if_split)
  then show ?thesis
    by (simp add: decrypt_def split: sum.splits)
qed

lemma decrypt_marked:
  "atob e = Inr (FALLBACK_MARKER @ x) \<Longrightarrow>
   decrypt h cfg sfx e masterKey salt =
     (case decodeURIComponent_escape
             (fold (xor_round (createEnhancedKey masterKey (fallback_salt cfg sfx salt))) [2, 1, 0] x) of
        Inl err \<Rightarrow> None
      | Inr s \<Rightarrow> Some s)"
  by (simp add: decrypt_def decrypt_primary_def fallbackDecrypt_def Let_def substring_marker
      del: fold_simps)

lemma decrypt_suffix_irrelevant:
  "configured_salt cfg = None \<Longrightarrow>
   decrypt h cfg sfx e masterKey salt = decrypt h cfg sfx' e masterKey salt"
proof -
  assume cfg: "configured_salt cfg = None"
  have "fallbackDecrypt cfg sfx e masterKey salt = fallbackDecrypt cfg sfx' e masterKey salt"
    unfolding fallbackDecrypt_def fallback_salt_default [OF cfg] ..
  then show ?thesis
    unfolding decrypt_def decrypt_primary_def by (simp only:)
qed

lemma arrayBufferToBase64_inj:
  "arrayBufferToBase64 a = arrayBufferToBase64 b \<Longrightarrow> a = b"
proof -
  assume "arrayBufferToBase64 a = arrayBufferToBase64 b"
  then have "base64ToArrayBuffer (arrayBufferToBase64 a) = base64ToArrayBuffer (arrayBufferToBase64 b)"
    by simp
  then show ?thesis by (simp add: base64ToArrayBuffer_inverse)
qed

lemma encrypt_salt_rng:
  "encrypt_salt cfg rng salt = (salt', rng') \<Longrightarrow>
   rng' = (case configured_salt cfg of None \<Rightarrow> rng | Some cs \<Rightarrow> (\<lambda>i. rng (i + 8)))"
  by (auto simp: encrypt_salt_def getRandomValues_def Let_def split: option.splits)

lemma marker_no_ws: "\<forall>c\<in>set ENCRYPTION_MARKER. \<not> is_js_ws c"
  by (simp add: ENCRYPTION_MARKER_def js_simps is_js_ws_def)

lemma arrayBufferToBase64_no_ws: "\<forall>c\<in>set (arrayBufferToBase64 bs). \<not> is_js_ws c"
  unfolding arrayBufferToBase64_def by (rule b64_groups_no_js_ws [OF bytes_lt_256])

lemma processComment_marked:
  "\<forall>c\<in>set e. \<not> is_js_ws c \<Longrightarrow> processComment (ENCRYPTION_MARKER @ e) = Encoded e"
proof -
  assume "\<forall>c\<in>set e. \<not> is_js_ws c"
  with marker_no_ws have "\<forall>c\<in>set (ENCRYPTION_MARKER @ e). \<not> is_js_ws c"
    by auto
  then have "trim (ENCRYPTION_MARKER @ e) = ENCRYPTION_MARKER @ e"
    by (rule trim_no_ws)
  then show ?thesis
    by (simp add: processComment_def startsWith_def substring_from_def)
qed

lemma length_spec_primary_layout:
  "length (spec_primary_layout version salt nonce ct) = 2 + length salt + length nonce + length ct"
  by (simp add: spec_primary_layout_def)

lemma trim_prefix:
  "dropWhile is_js_ws t = t \<Longrightarrow> t = trim t @ rev (takeWhile is_js_ws (rev t))"
proof -
  assume "dropWhile is_js_ws t = t"
  then have "trim t = rev (dropWhile is_js_ws (rev t))"
    by (simp add: trim_def)
  moreover have "rev (takeWhile is_js_ws (rev t) @ dropWhile is_js_ws (rev t)) = t"
    by (simp only: takeWhile_dropWhile_id rev_rev_ident)
  then have "rev (dropWhile is_js_ws (rev t)) @ rev (takeWhile is_js_ws (rev t)) = t"
    by (simp only: rev_append)
  ultimately show ?thesis by simp
qed

lemma startsWith_trim:
  assumes "dropWhile is_js_ws t = t" and "startsWith (trim t) p"
  shows "startsWith t p"
proof -
  from assms(2) have p: "take (length p) (trim t) = p"
    by (simp add: startsWith_def)
  have "length (take (length p) (trim t)) \<le> length (trim t)"
    by simp
  then have "length p \<le> length (trim t)"
    unfolding p .
  then have "take (length p) (trim t @ rev (takeWhile is_js_ws (rev t))) = take (length p) (trim t)"
    by simp
  with trim_prefix [OF assms(1)] p show ?thesis
    by (simp add: startsWith_def)
qed

text \<open>
  With \<open>VALINE_CRYPTO_SALT\<close> set, \<open>encrypt\<close> derives the key from the mixed salt and
  \<open>decrypt\<close> from the configured salt alone: the two agree only when the mixing
  returns the configured salt itself.
\<close>

lemma decrypt_salt_configured:
  "configured_salt cfg = Some cs \<Longrightarrow> decrypt_salt cfg salt = Inr finalSalt \<Longrightarrow>
   finalSalt = arrayBufferToBase64 (TextEncoder_encode cs) @ salt"
  by (auto simp: decrypt_salt_def split: sum.splits)

lemma encrypt_salt_configured:
  "configured_salt cfg = Some cs \<Longrightarrow>
   fst (encrypt_salt cfg rng salt) =
     arrayBufferToBase64
       (mixed_salt (TextEncoder_encode cs) (map rng [0..<8])
          (case saltLength cfg of None \<Rightarrow> 16 | Some l \<Rightarrow> if l = 0 then 16 else l)) @ salt"
  by (simp add: encrypt_salt_def getRandomValues_def Let_def)

lemma salted_key_salt_agreement:
  assumes "configured_salt cfg = Some cs" and "decrypt_salt cfg salt = Inr finalSalt"
  shows "fst (encrypt_salt cfg rng salt) = finalSalt \<longleftrightarrow>
         mixed_salt (TextEncoder_encode cs) (map rng [0..<8])
           (case saltLength cfg of None \<Rightarrow> 16 | Some l \<Rightarrow> if l = 0 then 16 else l) =
         TextEncoder_encode cs"
  unfolding encrypt_salt_configured [OF assms(1)] decrypt_salt_configured [OF assms]
  by (auto dest: arrayBufferToBase64_inj)

section \<open>The model on the stand-in host\<close>

text \<open>Evaluations of the definitions at the inputs the theorems below are instantiated at.\<close>

lemma upt_12: "[0..<12] = [0, 1, 2, 3, 4, 5, 6, 7, 8, 9, 10, 11]"
  by (simp add: upt_rec)

lemma replicate_14: "replicate 14 x = [x, x, x, x, x, x, x, x, x, x, x, x, x, x]"
  by (simp add: numeral_eq_Suc)

lemma letters_iv:
  "fst (getRandomValues letters_rng IV_LENGTH) = [65, 66, 67, 68, 69, 70, 71, 72, 73, 74, 75, 76]"
  by (simp add: getRandomValues_def IV_LENGTH_def letters_rng_def upt_12)

lemma marker_iv:
  "fst (getRandomValues marker_rng IV_LENGTH) = [70, 65, 76, 76, 66, 65, 67, 75, 58, 65, 65, 65]"
  by (simp add: getRandomValues_def IV_LENGTH_def marker_rng_def upt_12)

lemma encode_k: "TextEncoder_encode (js ''k'') = [107]" "TextEncoder_encode (js ''s'') = [115]"
  "TextEncoder_encode (js ''hi'') = [104, 105]" "TextEncoder_encode (js ''K'') = [75]"
  by (simp_all add: TextEncoder_encode_def js_simps is_lead_def is_trail_def utf8_of_cp_def)

lemma toy_subtle: "subtle toy_host = Some toy_webcrypto"
  by (simp add: toy_host_def)

lemma plain_subtle: "subtle plain_host = None"
  by (simp add: plain_host_def)

lemma default_unsalted: "configured_salt default_config = None"
  by (simp add: configured_salt_def default_config_def)

lemma bad_unsalted: "configured_salt bad_iterations_config = None"
  by (simp add: configured_salt_def bad_iterations_config_def)

lemma salted: "configured_salt salted_config = Some (js ''s'')"
  by (simp add: configured_salt_def salted_config_def js_simps)

lemma plain_primary_fails:
  "encrypt_primary plain_host cfg rng text masterKey salt = Inl TypeError"
  by (simp add: encrypt_primary_def generateStrongKey_def plain_host_def)

lemma encrypt_plain_host:
  "encrypt plain_host default_config rng sfx text masterKey salt =
     fallbackEncrypt default_config sfx text masterKey salt"
  by (rule encrypt_fallback [OF default_unsalted plain_primary_fails])

lemma toy_key_k_s:
  "generateStrongKey toy_host default_config (js ''k'') (js ''s'') = Inr (107 # 115 # replicate 30 0)"
  by (simp add: generateStrongKey_def toy_host_def toy_webcrypto_def default_config_def
      toy_pbkdf2_def encode_k)

lemma toy_key_K_s:
  "generateStrongKey toy_host default_config (js ''K'') (js ''s'') = Inr (75 # 115 # replicate 30 0)"
  by (simp add: generateStrongKey_def toy_host_def toy_webcrypto_def default_config_def
      toy_pbkdf2_def encode_k)

lemma toy_key_bad:
  "generateStrongKey toy_host bad_iterations_config (js ''k'') (js ''s'') = Inl TypeError"
  by (simp add: generateStrongKey_def toy_host_def toy_webcrypto_def bad_iterations_config_def
      toy_pbkdf2_def)

lemma toy_tag_k_s: "toy_tag (107 # 115 # replicate 30 0) = 107 # 115 # replicate 14 0"
  by (simp add: toy_tag_def)

lemma toy_enc_hi:
  "gcm_encrypt toy_webcrypto (107 # 115 # replicate 30 0) iv [104, 105] =
     Inr ([3, 2] @ 107 # 115 # replicate 14 0)"
  by (simp add: toy_webcrypto_def toy_gcm_encrypt_def toy_tag_k_s cyclic_def)

lemma toy_dec_hi:
  "gcm_decrypt toy_webcrypto (107 # 115 # replicate 30 0) iv ([3, 2] @ 107 # 115 # replicate 14 0) =
     Inr [104, 105]"
  by (simp add: toy_webcrypto_def toy_gcm_decrypt_def toy_tag_k_s cyclic_def)

lemma toy_dec_wrong_key:
  "gcm_decrypt toy_webcrypto (75 # 115 # replicate 30 0) iv ([3, 2] @ 107 # 115 # replicate 14 0) =
     Inl OperationError"
  by (simp add: toy_webcrypto_def toy_gcm_decrypt_def toy_tag_def)

lemma key_k_s: "createEnhancedKey (js ''k'') (js ''s'') = [107, 114, 105]"
  by (simp add: createEnhancedKey_def js_simps upt_rec nth_Cons')

lemma key_K_s: "createEnhancedKey (js ''K'') (js ''s'') = [75, 114, 73]"
  by (simp add: createEnhancedKey_def js_simps upt_rec nth_Cons')

lemma wf_hi: "well_formed (js ''hi'')"
  by (simp add: js_simps is_lead_def is_trail_def)

lemma latin1_k_s: "latin1 (js ''k'')" "latin1 (js ''s'')"
  by (simp_all add: js_simps latin1_def)

lemma no_bom_hi: "take 1 (js ''hi'') \<noteq> [0xFEFF]"
  by (simp add: js_simps)

lemma trim_hi: "trim (js ''hi'') = js ''hi''"
  by (simp add: trim_def js_simps is_js_ws_def)

lemma hi_nonempty: "js ''hi'' \<noteq> []"
  by (simp add: js_simps)

lemma letters_iv_not_marker:
  "\<not> startsWith (map ucast [65, 66, 67, 68, 69, 70, 71, 72, 73, 74, 75, 76 :: 8 word]) FALLBACK_MARKER"
  by (simp add: startsWith_def FALLBACK_MARKER_def js_simps)

lemma length_letters_iv: "length [65, 66, 67, 68, 69, 70, 71, 72, 73, 74, 75, 76 :: 8 word] = IV_LENGTH"
  by (simp add: IV_LENGTH_def)

lemma take_drop_payload_hi:
  "take IV_LENGTH ([65, 66, 67, 68, 69, 70, 71, 72, 73, 74, 75, 76] @ ct) = [65, 66, 67, 68, 69, 70, 71, 72, 73, 74, 75, 76]"
  "drop IV_LENGTH ([65, 66, 67, 68, 69, 70, 71, 72, 73, 74, 75, 76] @ ct) = ct"
  by (simp_all add: IV_LENGTH_def)

lemma uri_hi: "unescape_encodeURIComponent (js ''hi'') = Inr [104, 105]"
  by (simp add: unescape_encodeURIComponent_def js_simps is_lead_def is_trail_def utf8_of_cp_def)

lemma xor_hi: "fold (xor_round [107, 114, 105]) [0, 1, 2] [104, 105] = [24, 25]"
  by (simp add: xor_round_def cyclic_def upt_rec)

lemma btoa_hi:
  "btoa (FALLBACK_MARKER @ [24, 25]) =
     Inr [82, 107, 70, 77, 84, 69, 74, 66, 81, 48, 115, 54, 71, 66, 107, 61]"
  by (simp add: btoa_def FALLBACK_MARKER_def js_simps latin1_def b64_char_def)

lemma fallbackEncrypt_hi:
  "configured_salt cfg = None \<Longrightarrow>
   fallbackEncrypt cfg sfx (js ''hi'') (js ''k'') (js ''s'') =
     Inr [82, 107, 70, 77, 84, 69, 74, 66, 81, 48, 115, 54, 71, 66, 107, 61]"
  unfolding fallbackEncrypt_def Let_def
  by (simp only: fallback_salt_default key_k_s uri_hi sum.case xor_hi btoa_hi)

lemma encrypt_primary_toy_hi:
  "encrypt_primary toy_host default_config letters_rng (js ''hi'') (js ''k'') (js ''s'') =
     Inr (arrayBufferToBase64
       ([65, 66, 67, 68, 69, 70, 71, 72, 73, 74, 75, 76] @ [3, 2] @ 107 # 115 # replicate 14 0))"
  unfolding encrypt_primary_Inr letters_iv encode_k
  using toy_subtle toy_key_k_s toy_enc_hi by blast

lemma encrypt_primary_toy_marker:
  "encrypt_primary toy_host default_config marker_rng (js ''hi'') (js ''k'') (js ''s'') =
     Inr (arrayBufferToBase64
       ([70, 65, 76, 76, 66, 65, 67, 75, 58, 65, 65, 65] @ [3, 2] @ 107 # 115 # replicate 14 0))"
  unfolding encrypt_primary_Inr marker_iv encode_k
  using toy_subtle toy_key_k_s toy_enc_hi by blast

lemma encrypt_toy_hi:
  "encrypt toy_host default_config letters_rng [] (js ''hi'') (js ''k'') (js ''s'') =
     Inr (arrayBufferToBase64
       ([65, 66, 67, 68, 69, 70, 71, 72, 73, 74, 75, 76] @ [3, 2] @ 107 # 115 # replicate 14 0))"
proof -
  have "encrypt_primary toy_host default_config letters_rng (js ''hi'') (js ''k'') (js ''s'') =
     Inr (arrayBufferToBase64
       ([65, 66, 67, 68, 69, 70, 71, 72, 73, 74, 75, 76] @ [3, 2] @ 107 # 115 # replicate 14 0))"
    unfolding encrypt_primary_Inr letters_iv encode_k
    using toy_subtle toy_key_k_s toy_enc_hi by blast
  then show ?thesis
    by (simp add: encrypt_def encrypt_salt_default [OF default_unsalted])
qed

lemma encrypt_toy_marker_iv:
  "encrypt toy_host default_config marker_rng [] (js ''hi'') (js ''k'') (js ''s'') =
     Inr (arrayBufferToBase64
       ([70, 65, 76, 76, 66, 65, 67, 75, 58, 65, 65, 65] @ [3, 2] @ 107 # 115 # replicate 14 0))"
proof -
  have "encrypt_primary toy_host default_config marker_rng (js ''hi'') (js ''k'') (js ''s'') =
     Inr (arrayBufferToBase64
       ([70, 65, 76, 76, 66, 65, 67, 75, 58, 65, 65, 65] @ [3, 2] @ 107 # 115 # replicate 14 0))"
    unfolding encrypt_primary_Inr marker_iv encode_k
    using toy_subtle toy_key_k_s toy_enc_hi by blast
  then show ?thesis
    by (simp add: encrypt_def encrypt_salt_default [OF default_unsalted])
qed

lemma ucast_payload_hi:
  "map ucast ([65, 66, 67, 68, 69, 70, 71, 72, 73, 74, 75, 76] @ [3, 2] @ 107 # 115 # replicate 14 (0 :: 8 word)) =
     [65, 66, 67, 68, 69, 70, 71, 72, 73, 74, 75, 76, 3, 2, 107, 115,
      0, 0, 0, 0, 0, 0, 0, 0, 0, 0, 0, 0, 0, 0 :: 16 word]"
  by (simp add: replicate_14)

lemma ucast_marker_iv:
  "map ucast ([70, 65, 76, 76, 66, 65, 67, 75, 58, 65, 65, 65] @ [3, 2] @ 107 # 115 # replicate 14 (0 :: 8 word)) =
     FALLBACK_MARKER @ [65, 65, 65, 3, 2, 107, 115, 0, 0, 0, 0, 0, 0, 0, 0, 0, 0, 0, 0, 0, 0 :: 16 word]"
  by (simp add: FALLBACK_MARKER_def js_simps replicate_14)

lemma upt_21: "[0..<21] = [0, 1, 2, 3, 4, 5, 6, 7, 8, 9, 10, 11, 12, 13, 14, 15, 16, 17, 18, 19, 20]"
  by (simp add: upt_rec)

lemma xor_21:
  "fold (xor_round [107, 114, 105]) [2, 1, 0]
     [65, 65, 65, 3, 2, 107, 115, 0, 0, 0, 0, 0, 0, 0, 0, 0, 0, 0, 0, 0, 0] =
   [49, 49, 49, 115, 114, 27, 3, 112, 112, 112, 112, 112, 112, 112, 112, 112, 112, 112,
    112, 112, 112]"
  by (simp add: xor_round_def cyclic_def upt_21)

lemma dec_21:
  "decodeURIComponent_escape [49, 49, 49, 115, 114, 27, 3, 112, 112, 112, 112, 112, 112, 112, 112, 112, 112, 112,
    112, 112, 112] = Inr [49, 49, 49, 115, 114, 27, 3, 112, 112, 112, 112, 112, 112, 112, 112, 112, 112, 112,
    112, 112, 112]"
  by (simp add: decodeURIComponent_escape_def latin1_def utf16_of_cp_def)

lemma upt_30: "[0..<30] = [0, 1, 2, 3, 4, 5, 6, 7, 8, 9, 10, 11, 12, 13, 14, 15, 16, 17, 18, 19, 20,
    21, 22, 23, 24, 25, 26, 27, 28, 29]"
  by (simp add: upt_rec)

lemma xor_30:
  "fold (xor_round [75, 114, 73]) [2, 1, 0]
     [65, 66, 67, 68, 69, 70, 71, 72, 73, 74, 75, 76, 3, 2, 107, 115,
      0, 0, 0, 0, 0, 0, 0, 0, 0, 0, 0, 0, 0, 0] =
   [49, 50, 51, 52, 53, 54, 55, 56, 57, 58, 59, 60, 115, 114, 27, 3,
    112, 112, 112, 112, 112, 112, 112, 112, 112, 112, 112, 112, 112, 112]"
  by (simp add: xor_round_def cyclic_def upt_30)

lemma dec_30:
  "decodeURIComponent_escape [49, 50, 51, 52, 53, 54, 55, 56, 57, 58, 59, 60, 115, 114, 27, 3,
    112, 112, 112, 112, 112, 112, 112, 112, 112, 112, 112, 112, 112, 112] =
   Inr [49, 50, 51, 52, 53, 54, 55, 56, 57, 58, 59, 60, 115, 114, 27, 3,
    112, 112, 112, 112, 112, 112, 112, 112, 112, 112, 112, 112, 112, 112]"
  by (simp add: decodeURIComponent_escape_def latin1_def utf16_of_cp_def)

lemma payload_hi_not_marker:
  "\<not> startsWith [65, 66, 67, 68, 69, 70, 71, 72, 73, 74, 75, 76, 3, 2, 107, 115,
      0, 0, 0, 0, 0, 0, 0, 0, 0, 0, 0, 0, 0, 0] FALLBACK_MARKER"
  by (simp add: startsWith_def FALLBACK_MARKER_def js_simps)

lemma decrypt_toy_marker_iv:
  "decrypt toy_host default_config []
     (arrayBufferToBase64
       ([70, 65, 76, 76, 66, 65, 67, 75, 58, 65, 65, 65] @ [3, 2] @ 107 # 115 # replicate 14 0))
     (js ''k'') (js ''s'') =
   Some [49, 49, 49, 115, 114, 27, 3, 112, 112, 112, 112, 112, 112, 112, 112, 112, 112, 112,
         112, 112, 112]"
proof -
  let ?e = "arrayBufferToBase64
       ([70, 65, 76, 76, 66, 65, 67, 75, 58, 65, 65, 65] @ [3, 2] @ 107 # 115 # replicate 14 0)"
  have a: "atob ?e = Inr (FALLBACK_MARKER @
      [65, 65, 65, 3, 2, 107, 115, 0, 0, 0, 0, 0, 0, 0, 0, 0, 0, 0, 0, 0, 0])"
    unfolding atob_arrayBufferToBase64 ucast_marker_iv ..
  have "fallbackDecrypt default_config [] ?e (js ''k'') (js ''s'') =
     Some [49, 49, 49, 115, 114, 27, 3, 112, 112, 112, 112, 112, 112, 112, 112, 112, 112, 112,
         112, 112, 112]"
    unfolding fallbackDecrypt_def a Let_def fallback_salt_default [OF default_unsalted] key_k_s
    by (simp only: sum.case startsWith_append if_True substring_marker xor_21 dec_21)
  then show ?thesis
    unfolding decrypt_def decrypt_primary_def a by simp
qed

lemma key_wide: "createEnhancedKey [0x5BC6] [] = [0x5BC6, 0x5BC7]"
  by (simp add: createEnhancedKey_def upt_rec nth_Cons')

lemma uri_a: "unescape_encodeURIComponent (js ''a'') = Inr [97]"
  by (simp add: unescape_encodeURIComponent_def js_simps is_lead_def is_trail_def utf8_of_cp_def)

lemma xor_wide: "fold (xor_round [0x5BC6, 0x5BC7]) [0, 1, 2] [97] = [0x5BA6]"
  by (simp add: xor_round_def cyclic_def upt_rec numeral_2_eq_2 [symmetric])

lemma btoa_wide: "btoa (FALLBACK_MARKER @ [0x5BA6]) = Inl InvalidCharacterError"
  by (simp add: btoa_def latin1_def)

lemma fallback_wide_key:
  "fallbackEncrypt default_config [] (js ''a'') [0x5BC6] [] = Inl (EncryptFailed InvalidCharacterError)"
  unfolding fallbackEncrypt_def Let_def fallback_salt_default [OF default_unsalted] key_wide uri_a
  by (simp only: sum.case xor_wide btoa_wide)

lemma fallback_lone_surrogate:
  "fallbackEncrypt default_config [] [0xD800] (js ''k'') (js ''s'') = Inl (EncryptFailed URIError)"
  by (simp add: fallbackEncrypt_def unescape_encodeURIComponent_def is_lead_def)

lemma encode_bom: "TextEncoder_encode [0xFEFF, 0x61] = [239, 187, 191, 97]"
  by (simp add: TextEncoder_encode_def is_lead_def is_trail_def utf8_of_cp_def)

lemma toy_enc_bom:
  "gcm_encrypt toy_webcrypto (107 # 115 # replicate 30 0) iv [239, 187, 191, 97] =
     Inr ([132, 208, 212, 10] @ 107 # 115 # replicate 14 0)"
  by (simp add: toy_webcrypto_def toy_gcm_encrypt_def toy_tag_k_s cyclic_def)

lemma toy_dec_bom:
  "gcm_decrypt toy_webcrypto (107 # 115 # replicate 30 0) iv ([132, 208, 212, 10] @ 107 # 115 # replicate 14 0) =
     Inr [239, 187, 191, 97]"
  by (simp add: toy_webcrypto_def toy_gcm_decrypt_def toy_tag_k_s cyclic_def)

lemma decode_bom: "TextDecoder_decode h [239, 187, 191, 97] = [0x61]"
  by (simp add: TextDecoder_decode_def utf16_of_cp_def)

lemma encrypt_toy_bom:
  "encrypt toy_host default_config letters_rng [] [0xFEFF, 0x61] (js ''k'') (js ''s'') =
     Inr (arrayBufferToBase64
       ([65, 66, 67, 68, 69, 70, 71, 72, 73, 74, 75, 76] @ [132, 208, 212, 10] @ 107 # 115 # replicate 14 0))"
proof -
  have "encrypt_primary toy_host default_config letters_rng [0xFEFF, 0x61] (js ''k'') (js ''s'') =
     Inr (arrayBufferToBase64
       ([65, 66, 67, 68, 69, 70, 71, 72, 73, 74, 75, 76] @ [132, 208, 212, 10] @ 107 # 115 # replicate 14 0))"
    unfolding encrypt_primary_Inr letters_iv encode_bom
    using toy_subtle toy_key_k_s toy_enc_bom by blast
  then show ?thesis
    by (simp add: encrypt_def encrypt_salt_default [OF default_unsalted])
qed

lemma decrypt_toy_bom:
  "decrypt toy_host default_config []
     (arrayBufferToBase64
       ([65, 66, 67, 68, 69, 70, 71, 72, 73, 74, 75, 76] @ [132, 208, 212, 10] @ 107 # 115 # replicate 14 0))
     (js ''k'') (js ''s'') = Some [0x61]"
  unfolding decrypt_of_payload [OF default_unsalted toy_subtle toy_key_k_s length_letters_iv
      letters_iv_not_marker] toy_dec_bom
  by (simp only: sum.case decode_bom)

lemma fallback_salt_a:
  "fallback_salt salted_config (js ''aaaaaa'') (js ''t'') = js ''s_t_aaaaaa''"
  "fallback_salt salted_config (js ''bbbbbb'') (js ''t'') = js ''s_t_bbbbbb''"
  by (simp_all add: fallback_salt_def salted js_simps)

lemma key_a:
  "createEnhancedKey (js ''k'') (js ''s_t_aaaaaa'') =
     [107, 114, 93, 119, 91, 100, 103, 102, 105, 104, 107, 96]"
  by (simp add: createEnhancedKey_def js_simps upt_12 nth_Cons')

lemma key_b:
  "createEnhancedKey (js ''k'') (js ''s_t_bbbbbb'') =
     [107, 114, 93, 119, 91, 103, 100, 101, 106, 107, 104, 96]"
  by (simp add: createEnhancedKey_def js_simps upt_12 nth_Cons')

lemma xor_enc_a:
  "fold (xor_round [107, 114, 93, 119, 91, 100, 103, 102, 105, 104, 107, 96]) [0, 1, 2] [104, 105] = [56, 5]"
  by (simp add: xor_round_def cyclic_def upt_rec)

lemma xor_dec_a:
  "fold (xor_round [107, 114, 93, 119, 91, 100, 103, 102, 105, 104, 107, 96]) [2, 1, 0] [56, 5] = [104, 105]"
  by (simp add: xor_round_def cyclic_def upt_rec)

lemma xor_dec_b:
  "fold (xor_round [107, 114, 93, 119, 91, 103, 100, 101, 106, 107, 104, 96]) [2, 1, 0] [56, 5] = [107, 106]"
  by (simp add: xor_round_def cyclic_def upt_rec)

lemma btoa_a:
  "btoa (FALLBACK_MARKER @ [56, 5]) =
     Inr [82, 107, 70, 77, 84, 69, 74, 66, 81, 48, 115, 54, 79, 65, 85, 61]"
  by (simp add: btoa_def FALLBACK_MARKER_def js_simps latin1_def b64_char_def)

lemma dec_hi: "decodeURIComponent_escape [104, 105] = Inr (js ''hi'')"
  by (simp add: decodeURIComponent_escape_def latin1_def utf16_of_cp_def js_simps)

lemma dec_kj: "decodeURIComponent_escape [107, 106] = Inr (js ''kj'')"
  by (simp add: decodeURIComponent_escape_def latin1_def utf16_of_cp_def js_simps)

lemma trim_hello: "trim (js ''hello world'') = js ''hello world''"
  by (simp add: trim_def js_simps is_js_ws_def)

lemma hello_unmarked: "\<not> startsWith (js ''hello world'') ENCRYPTION_MARKER"
  by (simp add: startsWith_def ENCRYPTION_MARKER_def js_simps)

lemma hello_no_leading_ws: "dropWhile is_js_ws (js ''hello world'') = js ''hello world''"
  by (simp add: js_simps is_js_ws_def)

lemma replicate_13: "replicate 13 x = [x, x, x, x, x, x, x, x, x, x, x, x, x]"
  by (simp add: numeral_eq_Suc)

lemma toy_dec_tampered:
  "gcm_decrypt toy_webcrypto (107 # 115 # replicate 30 0) iv
     ([3, 2] @ 107 # 115 # replicate 13 0 @ [1]) = Inl OperationError"
  by (simp add: toy_webcrypto_def toy_gcm_decrypt_def toy_tag_def replicate_13 replicate_14)

lemma ucast_payload_tampered:
  "map ucast ([65, 66, 67, 68, 69, 70, 71, 72, 73, 74, 75, 76] @ [3, 2] @
       107 # 115 # replicate 13 (0 :: 8 word) @ [1]) =
     [65, 66, 67, 68, 69, 70, 71, 72, 73, 74, 75, 76, 3, 2, 107, 115,
      0, 0, 0, 0, 0, 0, 0, 0, 0, 0, 0, 0, 0, 1 :: 16 word]"
  by (simp add: replicate_13)

lemma xor_30_tampered:
  "fold (xor_round [107, 114, 105]) [2, 1, 0]
     [65, 66, 67, 68, 69, 70, 71, 72, 73, 74, 75, 76, 3, 2, 107, 115,
      0, 0, 0, 0, 0, 0, 0, 0, 0, 0, 0, 0, 0, 1] =
   [49, 50, 51, 52, 53, 54, 55, 56, 57, 58, 59, 60, 115, 114, 27, 3,
    112, 112, 112, 112, 112, 112, 112, 112, 112, 112, 112, 112, 112, 113]"
  by (simp add: xor_round_def cyclic_def upt_30)

lemma dec_30_tampered:
  "decodeURIComponent_escape [49, 50, 51, 52, 53, 54, 55, 56, 57, 58, 59, 60, 115, 114, 27, 3,
    112, 112, 112, 112, 112, 112, 112, 112, 112, 112, 112, 112, 112, 113] =
   Inr [49, 50, 51, 52, 53, 54, 55, 56, 57, 58, 59, 60, 115, 114, 27, 3,
    112, 112, 112, 112, 112, 112, 112, 112, 112, 112, 112, 112, 112, 113]"
  by (simp add: decodeURIComponent_escape_def latin1_def utf16_of_cp_def)

lemma payload_tampered_not_marker:
  "\<not> startsWith [65, 66, 67, 68, 69, 70, 71, 72, 73, 74, 75, 76, 3, 2, 107, 115,
      0, 0, 0, 0, 0, 0, 0, 0, 0, 0, 0, 0, 0, 1] FALLBACK_MARKER"
  by (simp add: startsWith_def FALLBACK_MARKER_def js_simps)

lemma decrypt_toy_tampered:
  "decrypt toy_host default_config []
     (arrayBufferToBase64
       ([65, 66, 67, 68, 69, 70, 71, 72, 73, 74, 75, 76] @ [3, 2] @ 107 # 115 # replicate 13 0 @ [1]))
     (js ''k'') (js ''s'') =
     Some [49, 50, 51, 52, 53, 54, 55, 56, 57, 58, 59, 60, 115, 114, 27, 3,
           112, 112, 112, 112, 112, 112, 112, 112, 112, 112, 112, 112, 112, 113]"
proof -
  have "decrypt toy_host default_config []
     (arrayBufferToBase64
       ([65, 66, 67, 68, 69, 70, 71, 72, 73, 74, 75, 76] @ [3, 2] @ 107 # 115 # replicate 13 0 @ [1]))
     (js ''k'') (js ''s'') =
     fallbackDecrypt default_config []
       (arrayBufferToBase64
         ([65, 66, 67, 68, 69, 70, 71, 72, 73, 74, 75, 76] @ [3, 2] @ 107 # 115 # replicate 13 0 @ [1]))
       (js ''k'') (js ''s'')"
    unfolding decrypt_of_payload [OF default_unsalted toy_subtle toy_key_k_s length_letters_iv
        letters_iv_not_marker] toy_dec_tampered
    by (simp only: sum.case)
  also have "\<dots> = Some [49, 50, 51, 52, 53, 54, 55, 56, 57, 58, 59, 60, 115, 114, 27, 3,
           112, 112, 112, 112, 112, 112, 112, 112, 112, 112, 112, 112, 112, 113]"
    unfolding fallbackDecrypt_def atob_arrayBufferToBase64 ucast_payload_tampered Let_def
      fallback_salt_default [OF default_unsalted] key_k_s
    using payload_tampered_not_marker
    by (simp only: sum.case if_False xor_30_tampered dec_30_tampered)
  finally show ?thesis .
qed

lemma salted_key_salts_differ:
  assumes "decrypt_salt salted_config salt = Inr finalSalt"
  shows "fst (encrypt_salt salted_config letters_rng salt) \<noteq> finalSalt"
proof
  assume "fst (encrypt_salt salted_config letters_rng salt) = finalSalt"
  then have "mixed_salt (TextEncoder_encode (js ''s'')) (map letters_rng [0..<8])
          (case saltLength salted_config of None \<Rightarrow> 16 | Some l \<Rightarrow> if l = 0 then 16 else l) =
      TextEncoder_encode (js ''s'')"
    unfolding salted_key_salt_agreement [OF salted assms] .
  then have "length (mixed_salt (TextEncoder_encode (js ''s'')) (map letters_rng [0..<8])
          (case saltLength salted_config of None \<Rightarrow> 16 | Some l \<Rightarrow> if l = 0 then 16 else l)) =
      length (TextEncoder_encode (js ''s''))"
    by simp
  then show False
    by (simp add: mixed_salt_def salted_config_def encode_k)
qed

section \<open>C1: decoding what was encoded\<close>

text \<open>
  C1, as the code has it, with no \<open>VALINE_CRYPTO_SALT\<close> configured and a plaintext
  without lone surrogates. Fallback family: whenever the primary path of \<open>encrypt\<close>
  throws and the master key and the salt have only units up to 255, \<open>encrypt\<close> returns
  a payload, and \<open>decrypt\<close> of it with the same key and salt, on any host, returns the
  plaintext. Primary family: whenever the key derivation succeeds, AES-GCM encrypts the
  UTF-8 text under the drawn IV and decrypts its own output under the same key and IV,
  the IV read as a string does not start with \<open>FALLBACK:\<close>, and the plaintext does not
  begin with U+FEFF, \<open>encrypt\<close> returns the base64 text of the IV followed by the
  ciphertext, and \<open>decrypt\<close> of it returns the plaintext.
\<close>

theorem C1_roundtrip:
  assumes cfg: "configured_salt cfg = None" and wf: "well_formed text"
  shows
    "(encrypt_primary h cfg rng text masterKey salt = Inl err \<and> latin1 masterKey \<and> latin1 salt \<longrightarrow>
        (\<exists>e. encrypt h cfg rng sfx text masterKey salt = Inr e \<and>
             decrypt h' cfg sfx' e masterKey salt = Some text)) \<and>
     (subtle h = Some w \<and> generateStrongKey h cfg masterKey salt = Inr key \<and>
      gcm_encrypt w key (fst (getRandomValues rng IV_LENGTH)) (TextEncoder_encode text) = Inr ct \<and>
      gcm_decrypt w key (fst (getRandomValues rng IV_LENGTH)) ct = Inr (TextEncoder_encode text) \<and>
      \<not> startsWith (map ucast (fst (getRandomValues rng IV_LENGTH))) FALLBACK_MARKER \<and>
      take 1 text \<noteq> [0xFEFF] \<longrightarrow>
        encrypt h cfg rng sfx text masterKey salt =
          Inr (arrayBufferToBase64 (fst (getRandomValues rng IV_LENGTH) @ ct)) \<and>
        decrypt h cfg sfx' (arrayBufferToBase64 (fst (getRandomValues rng IV_LENGTH) @ ct))
          masterKey salt = Some text)"
proof (intro conjI impI)
  assume a: "encrypt_primary h cfg rng text masterKey salt = Inl err \<and> latin1 masterKey \<and> latin1 salt"
  then have "encrypt h cfg rng sfx text masterKey salt = fallbackEncrypt cfg sfx text masterKey salt"
    using cfg by (intro encrypt_fallback) auto
  with fallback_roundtrip [OF cfg wf, of masterKey salt sfx h' sfx'] a
  show "\<exists>e. encrypt h cfg rng sfx text masterKey salt = Inr e \<and>
             decrypt h' cfg sfx' e masterKey salt = Some text"
    by auto
next
  assume a: "subtle h = Some w \<and> generateStrongKey h cfg masterKey salt = Inr key \<and>
      gcm_encrypt w key (fst (getRandomValues rng IV_LENGTH)) (TextEncoder_encode text) = Inr ct \<and>
      gcm_decrypt w key (fst (getRandomValues rng IV_LENGTH)) ct = Inr (TextEncoder_encode text) \<and>
      \<not> startsWith (map ucast (fst (getRandomValues rng IV_LENGTH))) FALLBACK_MARKER \<and>
      take 1 text \<noteq> [0xFEFF]"
  then have r: "encrypt h cfg rng sfx text masterKey salt =
          Inr (arrayBufferToBase64 (fst (getRandomValues rng IV_LENGTH) @ ct)) \<and>
        decrypt h cfg sfx' (arrayBufferToBase64 (fst (getRandomValues rng IV_LENGTH) @ ct))
          masterKey salt = Some text"
    using cfg wf by (intro primary_roundtrip) auto
  from r show "encrypt h cfg rng sfx text masterKey salt =
          Inr (arrayBufferToBase64 (fst (getRandomValues rng IV_LENGTH) @ ct))" ..
  from r show "decrypt h cfg sfx' (arrayBufferToBase64 (fst (getRandomValues rng IV_LENGTH) @ ct))
          masterKey salt = Some text" ..
qed

text \<open>
  The theorem on a host without \<open>crypto.subtle\<close> (fallback family) and on the stand-in
  host (primary family), for the text \<open>hi\<close>, the key \<open>k\<close> and the salt \<open>s\<close>.
\<close>

theorem C1_roundtrip_witness:
  "configured_salt default_config = None \<and> well_formed (js ''hi'') \<and>
   encrypt_primary plain_host default_config letters_rng (js ''hi'') (js ''k'') (js ''s'') = Inl TypeError \<and>
   latin1 (js ''k'') \<and> latin1 (js ''s'') \<and>
   (\<exists>e. encrypt plain_host default_config letters_rng [] (js ''hi'') (js ''k'') (js ''s'') = Inr e \<and>
        decrypt toy_host default_config [] e (js ''k'') (js ''s'') = Some (js ''hi'')) \<and>
   subtle toy_host = Some toy_webcrypto \<and>
   generateStrongKey toy_host default_config (js ''k'') (js ''s'') = Inr (107 # 115 # replicate 30 0) \<and>
   gcm_encrypt toy_webcrypto (107 # 115 # replicate 30 0)
     (fst (getRandomValues letters_rng IV_LENGTH)) (TextEncoder_encode (js ''hi'')) =
     Inr ([3, 2] @ 107 # 115 # replicate 14 0) \<and>
   gcm_decrypt toy_webcrypto (107 # 115 # replicate 30 0)
     (fst (getRandomValues letters_rng IV_LENGTH)) ([3, 2] @ 107 # 115 # replicate 14 0) =
     Inr (TextEncoder_encode (js ''hi'')) \<and>
   \<not> startsWith (map ucast (fst (getRandomValues letters_rng IV_LENGTH))) FALLBACK_MARKER \<and>
   take 1 (js ''hi'') \<noteq> [0xFEFF] \<and>
   encrypt toy_host default_config letters_rng [] (js ''hi'') (js ''k'') (js ''s'') =
     Inr (arrayBufferToBase64 (fst (getRandomValues letters_rng IV_LENGTH) @ [3, 2] @ 107 # 115 # replicate 14 0)) \<and>
   decrypt toy_host default_config []
     (arrayBufferToBase64 (fst (getRandomValues letters_rng IV_LENGTH) @ [3, 2] @ 107 # 115 # replicate 14 0))
     (js ''k'') (js ''s'') = Some (js ''hi'')"
proof -
  have fb: "encrypt_primary plain_host default_config letters_rng (js ''hi'') (js ''k'') (js ''s'') =
      Inl TypeError \<and> latin1 (js ''k'') \<and> latin1 (js ''s'')"
    by (simp add: plain_primary_fails latin1_k_s)
  have pr: "subtle toy_host = Some toy_webcrypto \<and>
     generateStrongKey toy_host default_config (js ''k'') (js ''s'') = Inr (107 # 115 # replicate 30 0) \<and>
     gcm_encrypt toy_webcrypto (107 # 115 # replicate 30 0)
       (fst (getRandomValues letters_rng IV_LENGTH)) (TextEncoder_encode (js ''hi'')) =
       Inr ([3, 2] @ 107 # 115 # replicate 14 0) \<and>
     gcm_decrypt toy_webcrypto (107 # 115 # replicate 30 0)
       (fst (getRandomValues letters_rng IV_LENGTH)) ([3, 2] @ 107 # 115 # replicate 14 0) =
       Inr (TextEncoder_encode (js ''hi'')) \<and>
     \<not> startsWith (map ucast (fst (getRandomValues letters_rng IV_LENGTH))) FALLBACK_MARKER \<and>
     take 1 (js ''hi'') \<noteq> [0xFEFF]"
    unfolding encode_k letters_iv
    by (intro conjI toy_subtle toy_key_k_s toy_enc_hi toy_dec_hi letters_iv_not_marker no_bom_hi)
  note t1 = C1_roundtrip [OF default_unsalted wf_hi, of plain_host letters_rng "js ''k''" "js ''s''"
      TypeError "[]" toy_host "[]", THEN conjunct1, rule_format, OF fb]
  note t2 = C1_roundtrip [OF default_unsalted wf_hi, of toy_host letters_rng "js ''k''" "js ''s''"
      _ "[]" _ "[]" toy_webcrypto "107 # 115 # replicate 30 0" "[3, 2] @ 107 # 115 # replicate 14 0",
      THEN conjunct2, rule_format, OF pr]
  show ?thesis
    using t1 t2 fb pr default_unsalted wf_hi by blast
qed

text \<open>
  C1 as stated fails at four inputs. In the fallback family, the master key U+5BC6
  makes \<open>btoa\<close> throw, and the lone surrogate U+D800 makes \<open>encodeURIComponent\<close>
  throw: \<open>encrypt\<close> raises. In the primary family, an IV that spells \<open>FALLBACK:\<close>
  sends \<open>decrypt\<close> to the fallback cipher, which returns another string; and a
  plaintext that begins with U+FEFF comes back without it.
\<close>

theorem C1_roundtrip_counterexample:
  "encrypt plain_host default_config letters_rng [] (js ''a'') [0x5BC6] [] =
     Inl (EncryptFailed InvalidCharacterError) \<and>
   encrypt plain_host default_config letters_rng [] [0xD800] (js ''k'') (js ''s'') =
     Inl (EncryptFailed URIError) \<and>
   encrypt toy_host default_config marker_rng [] (js ''hi'') (js ''k'') (js ''s'') =
     Inr (arrayBufferToBase64
       ([70, 65, 76, 76, 66, 65, 67, 75, 58, 65, 65, 65] @ [3, 2] @ 107 # 115 # replicate 14 0)) \<and>
   decrypt toy_host default_config []
     (arrayBufferToBase64
       ([70, 65, 76, 76, 66, 65, 67, 75, 58, 65, 65, 65] @ [3, 2] @ 107 # 115 # replicate 14 0))
     (js ''k'') (js ''s'') =
     Some [49, 49, 49, 115, 114, 27, 3, 112, 112, 112, 112, 112, 112, 112, 112, 112, 112, 112,
           112, 112, 112] \<and>
   encrypt toy_host default_config letters_rng [] [0xFEFF, 0x61] (js ''k'') (js ''s'') =
     Inr (arrayBufferToBase64
       ([65, 66, 67, 68, 69, 70, 71, 72, 73, 74, 75, 76] @ [132, 208, 212, 10] @ 107 # 115 # replicate 14 0)) \<and>
   decrypt toy_host default_config []
     (arrayBufferToBase64
       ([65, 66, 67, 68, 69, 70, 71, 72, 73, 74, 75, 76] @ [132, 208, 212, 10] @ 107 # 115 # replicate 14 0))
     (js ''k'') (js ''s'') = Some [0x61]"
  unfolding encrypt_plain_host
  by (intro conjI fallback_wide_key fallback_lone_surrogate encrypt_toy_marker_iv
      decrypt_toy_marker_iv encrypt_toy_bom decrypt_toy_bom)

section \<open>C2: a failed authentication\<close>

text \<open>
  C2, as the code has it: for every payload that is not marked \<open>FALLBACK:\<close>, when AES-GCM
  rejects it under the key derived from the supplied secret, for whatever reason,
  \<open>decrypt\<close> returns what the fallback cipher makes of the payload's bytes: \<open>null\<close> when
  the XOR-decoded bytes are not UTF-8, and otherwise the string they decode to. The
  result does not depend on the exception.
\<close>

theorem C2_failed_authentication:
  assumes "atob e = Inr decoded" and "\<not> startsWith decoded FALLBACK_MARKER"
    and "decrypt_salt cfg salt = Inr finalSalt" and "subtle h = Some w"
    and "generateStrongKey h cfg masterKey finalSalt = Inr key"
    and "base64ToArrayBuffer e = Inr d"
    and "gcm_decrypt w key (take IV_LENGTH d) (drop IV_LENGTH d) = Inl err"
  shows "decrypt h cfg sfx e masterKey salt =
           (case decodeURIComponent_escape
                   (fold (xor_round (createEnhancedKey masterKey (fallback_salt cfg sfx salt)))
                      [2, 1, 0] decoded) of
              Inl x \<Rightarrow> None
            | Inr s \<Rightarrow> Some s)"
proof -
  have "decrypt_primary h cfg sfx e masterKey salt = Inl err"
    using assms by (simp add: decrypt_primary_def Let_def)
  then have "decrypt h cfg sfx e masterKey salt = fallbackDecrypt cfg sfx e masterKey salt"
    by (simp add: decrypt_def)
  also have "\<dots> = (case decodeURIComponent_escape
                   (fold (xor_round (createEnhancedKey masterKey (fallback_salt cfg sfx salt)))
                      [2, 1, 0] decoded) of
              Inl x \<Rightarrow> None
            | Inr s \<Rightarrow> Some s)"
    using assms(1,2) by (simp add: fallbackDecrypt_def Let_def del: fold_simps)
  finally show ?thesis .
qed

text \<open>
  The theorem at the payload the stand-in host produces for \<open>hi\<close> under the key \<open>k\<close>,
  decoded with the key \<open>K\<close>.
\<close>

theorem C2_failed_authentication_witness:
  "atob (arrayBufferToBase64
       ([65, 66, 67, 68, 69, 70, 71, 72, 73, 74, 75, 76] @ [3, 2] @ 107 # 115 # replicate 14 0)) =
     Inr [65, 66, 67, 68, 69, 70, 71, 72, 73, 74, 75, 76, 3, 2, 107, 115,
          0, 0, 0, 0, 0, 0, 0, 0, 0, 0, 0, 0, 0, 0] \<and>
   \<not> startsWith [65, 66, 67, 68, 69, 70, 71, 72, 73, 74, 75, 76, 3, 2, 107, 115,
          0, 0, 0, 0, 0, 0, 0, 0, 0, 0, 0, 0, 0, 0] FALLBACK_MARKER \<and>
   decrypt_salt default_config (js ''s'') = Inr (js ''s'') \<and>
   subtle toy_host = Some toy_webcrypto \<and>
   generateStrongKey toy_host default_config (js ''K'') (js ''s'') = Inr (75 # 115 # replicate 30 0) \<and>
   base64ToArrayBuffer (arrayBufferToBase64
       ([65, 66, 67, 68, 69, 70, 71, 72, 73, 74, 75, 76] @ [3, 2] @ 107 # 115 # replicate 14 0)) =
     Inr ([65, 66, 67, 68, 69, 70, 71, 72, 73, 74, 75, 76] @ [3, 2] @ 107 # 115 # replicate 14 0) \<and>
   gcm_decrypt toy_webcrypto (75 # 115 # replicate 30 0)
     (take IV_LENGTH ([65, 66, 67, 68, 69, 70, 71, 72, 73, 74, 75, 76] @ [3, 2] @ 107 # 115 # replicate 14 0))
     (drop IV_LENGTH ([65, 66, 67, 68, 69, 70, 71, 72, 73, 74, 75, 76] @ [3, 2] @ 107 # 115 # replicate 14 0)) =
     Inl OperationError \<and>
   decrypt toy_host default_config []
     (arrayBufferToBase64
       ([65, 66, 67, 68, 69, 70, 71, 72, 73, 74, 75, 76] @ [3, 2] @ 107 # 115 # replicate 14 0))
     (js ''K'') (js ''s'') =
     (case decodeURIComponent_escape
             (fold (xor_round (createEnhancedKey (js ''K'') (fallback_salt default_config [] (js ''s''))))
                [2, 1, 0]
                [65, 66, 67, 68, 69, 70, 71, 72, 73, 74, 75, 76, 3, 2, 107, 115,
                 0, 0, 0, 0, 0, 0, 0, 0, 0, 0, 0, 0, 0, 0]) of
        Inl x \<Rightarrow> None
      | Inr s \<Rightarrow> Some s)"
proof -
  let ?p = "[65, 66, 67, 68, 69, 70, 71, 72, 73, 74, 75, 76] @ [3, 2] @ 107 # 115 # replicate 14 (0 :: 8 word)"
  have a: "atob (arrayBufferToBase64 ?p) =
     Inr [65, 66, 67, 68, 69, 70, 71, 72, 73, 74, 75, 76, 3, 2, 107, 115,
          0, 0, 0, 0, 0, 0, 0, 0, 0, 0, 0, 0, 0, 0]"
    unfolding atob_arrayBufferToBase64 ucast_payload_hi ..
  have s: "decrypt_salt default_config (js ''s'') = Inr (js ''s'')"
    by (rule decrypt_salt_default [OF default_unsalted])
  have b: "base64ToArrayBuffer (arrayBufferToBase64 ?p) = Inr ?p"
    by (rule base64ToArrayBuffer_inverse)
  have g: "gcm_decrypt toy_webcrypto (75 # 115 # replicate 30 0)
     (take IV_LENGTH ?p) (drop IV_LENGTH ?p) = Inl OperationError"
    unfolding take_drop_payload_hi by (rule toy_dec_wrong_key)
  note t = C2_failed_authentication [OF a payload_hi_not_marker s toy_subtle toy_key_K_s b g, of "[]"]
  show ?thesis
    using a payload_hi_not_marker s toy_subtle toy_key_K_s b g t by (intro conjI)
qed

text \<open>
  C2 as stated fails there: decoding with the wrong key \<open>K\<close> returns a string of 30
  characters, not an error; and so does decoding with the right key after the last
  byte of the tag is changed from 0 to 1.
\<close>

theorem C2_wrong_secret_counterexample:
  "encrypt toy_host default_config letters_rng [] (js ''hi'') (js ''k'') (js ''s'') =
     Inr (arrayBufferToBase64
       ([65, 66, 67, 68, 69, 70, 71, 72, 73, 74, 75, 76] @ [3, 2] @ 107 # 115 # replicate 14 0)) \<and>
   js ''K'' \<noteq> js ''k'' \<and>
   decrypt toy_host default_config []
     (arrayBufferToBase64
       ([65, 66, 67, 68, 69, 70, 71, 72, 73, 74, 75, 76] @ [3, 2] @ 107 # 115 # replicate 14 0))
     (js ''K'') (js ''s'') =
     Some [49, 50, 51, 52, 53, 54, 55, 56, 57, 58, 59, 60, 115, 114, 27, 3,
           112, 112, 112, 112, 112, 112, 112, 112, 112, 112, 112, 112, 112, 112] \<and>
   decrypt toy_host default_config []
     (arrayBufferToBase64
       ([65, 66, 67, 68, 69, 70, 71, 72, 73, 74, 75, 76] @ [3, 2] @ 107 # 115 # replicate 13 0 @ [1]))
     (js ''k'') (js ''s'') =
     Some [49, 50, 51, 52, 53, 54, 55, 56, 57, 58, 59, 60, 115, 114, 27, 3,
           112, 112, 112, 112, 112, 112, 112, 112, 112, 112, 112, 112, 112, 113]"
proof -
  have "decrypt toy_host default_config []
     (arrayBufferToBase64
       ([65, 66, 67, 68, 69, 70, 71, 72, 73, 74, 75, 76] @ [3, 2] @ 107 # 115 # replicate 14 0))
     (js ''K'') (js ''s'') =
     fallbackDecrypt default_config []
       (arrayBufferToBase64
         ([65, 66, 67, 68, 69, 70, 71, 72, 73, 74, 75, 76] @ [3, 2] @ 107 # 115 # replicate 14 0))
       (js ''K'') (js ''s'')"
    unfolding decrypt_of_payload [OF default_unsalted toy_subtle toy_key_K_s length_letters_iv
        letters_iv_not_marker] toy_dec_wrong_key
    by (simp only: sum.case)
  also have "\<dots> = Some [49, 50, 51, 52, 53, 54, 55, 56, 57, 58, 59, 60, 115, 114, 27, 3,
           112, 112, 112, 112, 112, 112, 112, 112, 112, 112, 112, 112, 112, 112]"
    unfolding fallbackDecrypt_def atob_arrayBufferToBase64 ucast_payload_hi Let_def
      fallback_salt_default [OF default_unsalted] key_K_s
    using payload_hi_not_marker
    by (simp only: sum.case if_False xor_30 dec_30)
  finally show ?thesis
    using encrypt_toy_hi decrypt_toy_tampered by (simp add: js_simps)
qed

section \<open>C3: when the fallback cipher is used\<close>

text \<open>
  C3, as the code has it: \<open>encrypt\<close> returns the result of \<open>fallbackEncrypt\<close> whenever
  anything in its primary path throws, whether \<open>crypto.subtle\<close> is missing, the key
  derivation throws or AES-GCM throws; it returns the primary payload exactly when the
  key derivation and AES-GCM both succeed.
\<close>

theorem C3_fallback_on_any_exception:
  assumes "encrypt_salt cfg rng salt = (salt', rng')"
  shows
    "((subtle h = None \<or> generateStrongKey h cfg masterKey salt' = Inl err \<or>
       (subtle h = Some w \<and> generateStrongKey h cfg masterKey salt' = Inr key \<and>
        gcm_encrypt w key (fst (getRandomValues rng' IV_LENGTH)) (TextEncoder_encode text) = Inl err))
       \<longrightarrow> encrypt h cfg rng sfx text masterKey salt = fallbackEncrypt cfg sfx text masterKey salt') \<and>
     (subtle h = Some w \<and> generateStrongKey h cfg masterKey salt' = Inr key \<and>
      gcm_encrypt w key (fst (getRandomValues rng' IV_LENGTH)) (TextEncoder_encode text) = Inr ct
       \<longrightarrow> encrypt h cfg rng sfx text masterKey salt =
             Inr (arrayBufferToBase64 (fst (getRandomValues rng' IV_LENGTH) @ ct)))"
proof (intro conjI impI)
  assume "subtle h = None \<or> generateStrongKey h cfg masterKey salt' = Inl err \<or>
       (subtle h = Some w \<and> generateStrongKey h cfg masterKey salt' = Inr key \<and>
        gcm_encrypt w key (fst (getRandomValues rng' IV_LENGTH)) (TextEncoder_encode text) = Inl err)"
  then have "\<exists>e. encrypt_primary h cfg rng' text masterKey salt' = Inl e"
    by (auto simp: encrypt_primary_def generateStrongKey_def Let_def)
  then show "encrypt h cfg rng sfx text masterKey salt = fallbackEncrypt cfg sfx text masterKey salt'"
    using assms by (auto simp: encrypt_def)
next
  assume "subtle h = Some w \<and> generateStrongKey h cfg masterKey salt' = Inr key \<and>
      gcm_encrypt w key (fst (getRandomValues rng' IV_LENGTH)) (TextEncoder_encode text) = Inr ct"
  then have "encrypt_primary h cfg rng' text masterKey salt' =
      Inr (arrayBufferToBase64 (fst (getRandomValues rng' IV_LENGTH) @ ct))"
    by (auto simp: encrypt_primary_Inr)
  then show "encrypt h cfg rng sfx text masterKey salt =
             Inr (arrayBufferToBase64 (fst (getRandomValues rng' IV_LENGTH) @ ct))"
    using assms by (simp add: encrypt_def)
qed

text \<open>
  The theorem on the stand-in host: with an iteration count of -1 the key derivation
  throws, and with the default configuration the primary path succeeds.
\<close>

theorem C3_fallback_on_any_exception_witness:
  "encrypt_salt bad_iterations_config letters_rng (js ''s'') = (js ''s'', letters_rng) \<and>
   generateStrongKey toy_host bad_iterations_config (js ''k'') (js ''s'') = Inl TypeError \<and>
   encrypt toy_host bad_iterations_config letters_rng [] (js ''hi'') (js ''k'') (js ''s'') =
     fallbackEncrypt bad_iterations_config [] (js ''hi'') (js ''k'') (js ''s'') \<and>
   encrypt_salt default_config letters_rng (js ''s'') = (js ''s'', letters_rng) \<and>
   subtle toy_host = Some toy_webcrypto \<and>
   generateStrongKey toy_host default_config (js ''k'') (js ''s'') = Inr (107 # 115 # replicate 30 0) \<and>
   gcm_encrypt toy_webcrypto (107 # 115 # replicate 30 0)
     (fst (getRandomValues letters_rng IV_LENGTH)) (TextEncoder_encode (js ''hi'')) =
     Inr ([3, 2] @ 107 # 115 # replicate 14 0) \<and>
   encrypt toy_host default_config letters_rng [] (js ''hi'') (js ''k'') (js ''s'') =
     Inr (arrayBufferToBase64 (fst (getRandomValues letters_rng IV_LENGTH) @ [3, 2] @ 107 # 115 # replicate 14 0))"
proof -
  have s1: "encrypt_salt bad_iterations_config letters_rng (js ''s'') = (js ''s'', letters_rng)"
    by (rule encrypt_salt_default [OF bad_unsalted])
  have s2: "encrypt_salt default_config letters_rng (js ''s'') = (js ''s'', letters_rng)"
    by (rule encrypt_salt_default [OF default_unsalted])
  have h1: "subtle toy_host = None \<or>
      generateStrongKey toy_host bad_iterations_config (js ''k'') (js ''s'') = Inl TypeError \<or>
      (subtle toy_host = Some toy_webcrypto \<and>
       generateStrongKey toy_host bad_iterations_config (js ''k'') (js ''s'') = Inr [] \<and>
       gcm_encrypt toy_webcrypto [] (fst (getRandomValues letters_rng IV_LENGTH))
         (TextEncoder_encode (js ''hi'')) = Inl TypeError)"
    using toy_key_bad by simp
  have e: "gcm_encrypt toy_webcrypto (107 # 115 # replicate 30 0)
     (fst (getRandomValues letters_rng IV_LENGTH)) (TextEncoder_encode (js ''hi'')) =
     Inr ([3, 2] @ 107 # 115 # replicate 14 0)"
    unfolding encode_k by (rule toy_enc_hi)
  have h2: "subtle toy_host = Some toy_webcrypto \<and>
      generateStrongKey toy_host default_config (js ''k'') (js ''s'') = Inr (107 # 115 # replicate 30 0) \<and>
      gcm_encrypt toy_webcrypto (107 # 115 # replicate 30 0)
        (fst (getRandomValues letters_rng IV_LENGTH)) (TextEncoder_encode (js ''hi'')) =
        Inr ([3, 2] @ 107 # 115 # replicate 14 0)"
    using toy_subtle toy_key_k_s e by (intro conjI)
  note t1 = C3_fallback_on_any_exception [OF s1, THEN conjunct1, rule_format, OF h1]
  note t2 = C3_fallback_on_any_exception [OF s2, THEN conjunct2, rule_format, OF h2]
  show ?thesis
    using s1 s2 toy_key_bad toy_subtle toy_key_k_s e t1 t2 by (intro conjI)
qed

text \<open>
  C3 as stated fails on the stand-in host, which has \<open>crypto.subtle\<close>: with an iteration
  count of -1 the key derivation throws a \<open>TypeError\<close> and \<open>encrypt\<close> returns a payload
  of the fallback family.
\<close>

theorem C3_exception_counterexample:
  "subtle toy_host = Some toy_webcrypto \<and>
   generateStrongKey toy_host bad_iterations_config (js ''k'') (js ''s'') = Inl TypeError \<and>
   encrypt toy_host bad_iterations_config letters_rng [] (js ''hi'') (js ''k'') (js ''s'') =
     Inr [82, 107, 70, 77, 84, 69, 74, 66, 81, 48, 115, 54, 71, 66, 107, 61] \<and>
   atob [82, 107, 70, 77, 84, 69, 74, 66, 81, 48, 115, 54, 71, 66, 107, 61] =
     Inr (FALLBACK_MARKER @ [24, 25])"
proof -
  have "encrypt_primary toy_host bad_iterations_config letters_rng (js ''hi'') (js ''k'') (js ''s'') =
      Inl TypeError"
    by (simp add: encrypt_primary_def toy_key_bad)
  then have "encrypt toy_host bad_iterations_config letters_rng [] (js ''hi'') (js ''k'') (js ''s'') =
      Inr [82, 107, 70, 77, 84, 69, 74, 66, 81, 48, 115, 54, 71, 66, 107, 61]"
    by (simp add: encrypt_fallback [OF bad_unsalted] fallbackEncrypt_hi [OF bad_unsalted])
  moreover have "atob [82, 107, 70, 77, 84, 69, 74, 66, 81, 48, 115, 54, 71, 66, 107, 61] =
      Inr (FALLBACK_MARKER @ [24, 25])"
    using btoa_hi by (rule atob_btoa)
  ultimately show ?thesis
    using toy_subtle toy_key_bad by (intro conjI)
qed

section \<open>C4: the layout of a primary payload\<close>

text \<open>
  C4, as the code has it: when the primary path succeeds, the submitted text is the
  marker followed by the base64 text of the 12-byte IV followed by the ciphertext and
  tag. \<open>processComments\<close> recovers the base64 text from it, and the IV and the
  ciphertext are the first 12 and the remaining bytes of its decoding. The bytes are
  never the specification's layout: they hold no version, no salt length and no salt.
\<close>

theorem C4_payload_layout:
  assumes "encrypt_salt cfg rng salt = (salt', rng')"
    and "trim textarea_value = content" and "content \<noteq> []"
    and "subtle h = Some w" and "generateStrongKey h cfg masterKey salt' = Inr key"
    and "gcm_encrypt w key (fst (getRandomValues rng' IV_LENGTH)) (TextEncoder_encode content) = Inr ct"
  shows
    "submitEncrypted h cfg rng sfx masterKey salt textarea_value =
       Inr (ENCRYPTION_MARKER @ arrayBufferToBase64 (fst (getRandomValues rng' IV_LENGTH) @ ct)) \<and>
     processComment (ENCRYPTION_MARKER @ arrayBufferToBase64 (fst (getRandomValues rng' IV_LENGTH) @ ct)) =
       Encoded (arrayBufferToBase64 (fst (getRandomValues rng' IV_LENGTH) @ ct)) \<and>
     base64ToArrayBuffer (arrayBufferToBase64 (fst (getRandomValues rng' IV_LENGTH) @ ct)) =
       Inr (fst (getRandomValues rng' IV_LENGTH) @ ct) \<and>
     length (fst (getRandomValues rng' IV_LENGTH)) = 12 \<and>
     take IV_LENGTH (fst (getRandomValues rng' IV_LENGTH) @ ct) = fst (getRandomValues rng' IV_LENGTH) \<and>
     drop IV_LENGTH (fst (getRandomValues rng' IV_LENGTH) @ ct) = ct \<and>
     fst (getRandomValues rng' IV_LENGTH) @ ct \<noteq>
       spec_primary_layout version salt_bytes (fst (getRandomValues rng' IV_LENGTH)) ct"
proof -
  let ?iv = "fst (getRandomValues rng' IV_LENGTH)"
  have "encrypt_primary h cfg rng' content masterKey salt' = Inr (arrayBufferToBase64 (?iv @ ct))"
    using assms(4-6) by (auto simp: encrypt_primary_Inr)
  then have "encrypt h cfg rng sfx content masterKey salt = Inr (arrayBufferToBase64 (?iv @ ct))"
    using assms(1) by (simp add: encrypt_def)
  then have 1: "submitEncrypted h cfg rng sfx masterKey salt textarea_value =
       Inr (ENCRYPTION_MARKER @ arrayBufferToBase64 (?iv @ ct))"
    using assms(2,3) by (simp add: submitEncrypted_def)
  have 2: "processComment (ENCRYPTION_MARKER @ arrayBufferToBase64 (?iv @ ct)) =
       Encoded (arrayBufferToBase64 (?iv @ ct))"
    by (rule processComment_marked [OF arrayBufferToBase64_no_ws])
  have "length (?iv @ ct) \<noteq> length (spec_primary_layout version salt_bytes ?iv ct)"
    by (simp add: length_spec_primary_layout)
  then have 3: "?iv @ ct \<noteq> spec_primary_layout version salt_bytes ?iv ct"
    by metis
  show ?thesis
    using 1 2 3 by (simp add: base64ToArrayBuffer_inverse IV_LENGTH_def)
qed

text \<open>The theorem on the stand-in host, for the text \<open>hi\<close>.\<close>

theorem C4_payload_layout_witness:
  "encrypt_salt default_config letters_rng (js ''s'') = (js ''s'', letters_rng) \<and>
   trim (js ''hi'') = js ''hi'' \<and> js ''hi'' \<noteq> [] \<and>
   subtle toy_host = Some toy_webcrypto \<and>
   generateStrongKey toy_host default_config (js ''k'') (js ''s'') = Inr (107 # 115 # replicate 30 0) \<and>
   gcm_encrypt toy_webcrypto (107 # 115 # replicate 30 0)
     (fst (getRandomValues letters_rng IV_LENGTH)) (TextEncoder_encode (js ''hi'')) =
     Inr ([3, 2] @ 107 # 115 # replicate 14 0) \<and>
   submitEncrypted toy_host default_config letters_rng [] (js ''k'') (js ''s'') (js ''hi'') =
     Inr (ENCRYPTION_MARKER @
       arrayBufferToBase64 (fst (getRandomValues letters_rng IV_LENGTH) @ [3, 2] @ 107 # 115 # replicate 14 0)) \<and>
   base64ToArrayBuffer
     (arrayBufferToBase64 (fst (getRandomValues letters_rng IV_LENGTH) @ [3, 2] @ 107 # 115 # replicate 14 0)) =
     Inr (fst (getRandomValues letters_rng IV_LENGTH) @ [3, 2] @ 107 # 115 # replicate 14 0)"
proof -
  have s: "encrypt_salt default_config letters_rng (js ''s'') = (js ''s'', letters_rng)"
    by (rule encrypt_salt_default [OF default_unsalted])
  have e: "gcm_encrypt toy_webcrypto (107 # 115 # replicate 30 0)
     (fst (getRandomValues letters_rng IV_LENGTH)) (TextEncoder_encode (js ''hi'')) =
     Inr ([3, 2] @ 107 # 115 # replicate 14 0)"
    unfolding encode_k by (rule toy_enc_hi)
  note t = C4_payload_layout [OF s trim_hi hi_nonempty toy_subtle toy_key_k_s e, of "[]"]
  show ?thesis
    using s trim_hi hi_nonempty toy_subtle toy_key_k_s e t by (intro conjI) simp_all
qed

text \<open>
  C4 as stated fails there: the payload decodes to 30 bytes, the IV and the ciphertext
  with its tag, and no version and salt make the specification's layout equal to them.
\<close>

theorem C4_layout_counterexample:
  "submitEncrypted toy_host default_config letters_rng [] (js ''k'') (js ''s'') (js ''hi'') =
     Inr (ENCRYPTION_MARKER @ arrayBufferToBase64
       ([65, 66, 67, 68, 69, 70, 71, 72, 73, 74, 75, 76] @ [3, 2] @ 107 # 115 # replicate 14 0)) \<and>
   base64ToArrayBuffer (arrayBufferToBase64
       ([65, 66, 67, 68, 69, 70, 71, 72, 73, 74, 75, 76] @ [3, 2] @ 107 # 115 # replicate 14 0)) =
     Inr ([65, 66, 67, 68, 69, 70, 71, 72, 73, 74, 75, 76] @ [3, 2] @ 107 # 115 # replicate 14 0) \<and>
   length ([65, 66, 67, 68, 69, 70, 71, 72, 73, 74, 75, 76] @ [3, 2] @ 107 # 115 # replicate 14 (0 :: 8 word)) = 30 \<and>
   length (spec_primary_layout 1 (TextEncoder_encode (js ''s''))
       [65, 66, 67, 68, 69, 70, 71, 72, 73, 74, 75, 76] ([3, 2] @ 107 # 115 # replicate 14 0)) = 33 \<and>
   \<not> (\<exists>version salt_bytes.
        [65, 66, 67, 68, 69, 70, 71, 72, 73, 74, 75, 76] @ [3, 2] @ 107 # 115 # replicate 14 0 =
        spec_primary_layout version salt_bytes
          [65, 66, 67, 68, 69, 70, 71, 72, 73, 74, 75, 76] ([3, 2] @ 107 # 115 # replicate 14 0))"
proof -
  have "submitEncrypted toy_host default_config letters_rng [] (js ''k'') (js ''s'') (js ''hi'') =
     Inr (ENCRYPTION_MARKER @ arrayBufferToBase64
       ([65, 66, 67, 68, 69, 70, 71, 72, 73, 74, 75, 76] @ [3, 2] @ 107 # 115 # replicate 14 0))"
    using hi_nonempty by (simp add: submitEncrypted_def trim_hi encrypt_toy_hi)
  moreover have "\<not> (\<exists>version salt_bytes.
        [65, 66, 67, 68, 69, 70, 71, 72, 73, 74, 75, 76] @ [3, 2] @ 107 # 115 # replicate 14 0 =
        spec_primary_layout version salt_bytes
          [65, 66, 67, 68, 69, 70, 71, 72, 73, 74, 75, 76] ([3, 2] @ 107 # 115 # replicate 14 0))"
  proof
    assume "\<exists>version salt_bytes.
        [65, 66, 67, 68, 69, 70, 71, 72, 73, 74, 75, 76] @ [3, 2] @ 107 # 115 # replicate 14 0 =
        spec_primary_layout version salt_bytes
          [65, 66, 67, 68, 69, 70, 71, 72, 73, 74, 75, 76] ([3, 2] @ 107 # 115 # replicate 14 0)"
    then obtain version salt_bytes where
      "length ([65, 66, 67, 68, 69, 70, 71, 72, 73, 74, 75, 76] @ [3, 2] @ 107 # 115 # replicate 14 (0 :: 8 word)) =
       length (spec_primary_layout version salt_bytes
          [65, 66, 67, 68, 69, 70, 71, 72, 73, 74, 75, 76] ([3, 2] @ 107 # 115 # replicate 14 0))"
      by metis
    then show False
      by (simp add: length_spec_primary_layout)
  qed
  ultimately show ?thesis
    by (simp add: base64ToArrayBuffer_inverse length_spec_primary_layout encode_k)
qed

section \<open>C5: decoding twice\<close>

text \<open>
  C5 fails on the code when \<open>VALINE_CRYPTO_SALT\<close> is set: \<open>fallbackDecrypt\<close> draws a
  new suffix from \<open>Math.random\<close> for its key, so two calls on the same payload and key
  can differ. Here the payload of \<open>hi\<close> decodes to \<open>hi\<close> when the draw is \<open>aaaaaa\<close>, as
  it was when encoding, and to \<open>kj\<close> when the draw is \<open>bbbbbb\<close>.
\<close>

theorem C5_decode_depends_on_random_suffix:
  "fallbackEncrypt salted_config (js ''aaaaaa'') (js ''hi'') (js ''k'') (js ''t'') =
     Inr [82, 107, 70, 77, 84, 69, 74, 66, 81, 48, 115, 54, 79, 65, 85, 61] \<and>
   decrypt plain_host salted_config (js ''aaaaaa'')
     [82, 107, 70, 77, 84, 69, 74, 66, 81, 48, 115, 54, 79, 65, 85, 61] (js ''k'') (js ''t'') =
     Some (js ''hi'') \<and>
   decrypt plain_host salted_config (js ''bbbbbb'')
     [82, 107, 70, 77, 84, 69, 74, 66, 81, 48, 115, 54, 79, 65, 85, 61] (js ''k'') (js ''t'') =
     Some (js ''kj'')"
proof -
  have a: "atob [82, 107, 70, 77, 84, 69, 74, 66, 81, 48, 115, 54, 79, 65, 85, 61] =
      Inr (FALLBACK_MARKER @ [56, 5])"
    using btoa_a by (rule atob_btoa)
  have 1: "fallbackEncrypt salted_config (js ''aaaaaa'') (js ''hi'') (js ''k'') (js ''t'') =
     Inr [82, 107, 70, 77, 84, 69, 74, 66, 81, 48, 115, 54, 79, 65, 85, 61]"
    unfolding fallbackEncrypt_def Let_def fallback_salt_a key_a uri_hi
    by (simp only: sum.case xor_enc_a btoa_a)
  have 2: "decrypt plain_host salted_config (js ''aaaaaa'')
     [82, 107, 70, 77, 84, 69, 74, 66, 81, 48, 115, 54, 79, 65, 85, 61] (js ''k'') (js ''t'') =
     Some (js ''hi'')"
    unfolding decrypt_marked [OF a] fallback_salt_a key_a xor_dec_a dec_hi
    by (simp only: sum.case)
  have 3: "decrypt plain_host salted_config (js ''bbbbbb'')
     [82, 107, 70, 77, 84, 69, 74, 66, 81, 48, 115, 54, 79, 65, 85, 61] (js ''k'') (js ''t'') =
     Some (js ''kj'')"
    unfolding decrypt_marked [OF a] fallback_salt_a key_b xor_dec_b dec_kj
    by (simp only: sum.case)
  from 1 2 3 show ?thesis by (intro conjI)
qed

section \<open>C6: encoding twice\<close>

text \<open>
  C6, as the code has it. In the primary family two calls of \<open>encrypt\<close> whose primary
  paths succeed return payloads that start with the IVs they draw, and the payloads
  differ whenever the IVs differ. In the fallback family, with no \<open>VALINE_CRYPTO_SALT\<close>
  configured, \<open>fallbackEncrypt\<close> reads neither the random source nor the random
  suffix: for every text, key and salt, two calls of \<open>encrypt\<close> whose primary paths
  throw return the same result, whatever the random draws.
\<close>

theorem C6_encode_twice:
  "(encrypt_salt cfg rng1 salt = (s1, r1) \<and> encrypt_salt cfg rng2 salt = (s2, r2) \<and>
    encrypt_primary h cfg r1 text masterKey s1 = Inr e1 \<and>
    encrypt_primary h cfg r2 text masterKey s2 = Inr e2 \<and>
    fst (getRandomValues r1 IV_LENGTH) \<noteq> fst (getRandomValues r2 IV_LENGTH) \<longrightarrow>
      encrypt h cfg rng1 sfx1 text masterKey salt = Inr e1 \<and>
      encrypt h cfg rng2 sfx2 text masterKey salt = Inr e2 \<and>
      map_sum id (take IV_LENGTH) (base64ToArrayBuffer e1) = Inr (fst (getRandomValues r1 IV_LENGTH)) \<and>
      map_sum id (take IV_LENGTH) (base64ToArrayBuffer e2) = Inr (fst (getRandomValues r2 IV_LENGTH)) \<and>
      e1 \<noteq> e2) \<and>
   (configured_salt cfg = None \<and>
    encrypt_primary h cfg rng1 text masterKey salt = Inl err1 \<and>
    encrypt_primary h cfg rng2 text masterKey salt = Inl err2 \<longrightarrow>
      encrypt h cfg rng1 sfx1 text masterKey salt = fallbackEncrypt cfg sfx1 text masterKey salt \<and>
      encrypt h cfg rng2 sfx2 text masterKey salt = fallbackEncrypt cfg sfx2 text masterKey salt \<and>
      fallbackEncrypt cfg sfx1 text masterKey salt = fallbackEncrypt cfg sfx2 text masterKey salt \<and>
      encrypt h cfg rng1 sfx1 text masterKey salt = encrypt h cfg rng2 sfx2 text masterKey salt)"
proof (intro conjI impI; elim conjE)
  assume st1: "encrypt_salt cfg rng1 salt = (s1, r1)" and st2: "encrypt_salt cfg rng2 salt = (s2, r2)"
    and p1: "encrypt_primary h cfg r1 text masterKey s1 = Inr e1"
    and p2: "encrypt_primary h cfg r2 text masterKey s2 = Inr e2"
    and d: "fst (getRandomValues r1 IV_LENGTH) \<noteq> fst (getRandomValues r2 IV_LENGTH)"
  from p1 obtain ct1 where
    e1: "e1 = arrayBufferToBase64 (fst (getRandomValues r1 IV_LENGTH) @ ct1)"
    by (auto simp: encrypt_primary_Inr)
  from p2 obtain ct2 where
    e2: "e2 = arrayBufferToBase64 (fst (getRandomValues r2 IV_LENGTH) @ ct2)"
    by (auto simp: encrypt_primary_Inr)
  have l: "length (fst (getRandomValues r IV_LENGTH)) = IV_LENGTH" for r
    by (simp add: getRandomValues_def)
  show "encrypt h cfg rng1 sfx1 text masterKey salt = Inr e1"
    using st1 p1 by (simp add: encrypt_def)
  show "encrypt h cfg rng2 sfx2 text masterKey salt = Inr e2"
    using st2 p2 by (simp add: encrypt_def)
  show "map_sum id (take IV_LENGTH) (base64ToArrayBuffer e1) = Inr (fst (getRandomValues r1 IV_LENGTH))"
    unfolding e1 base64ToArrayBuffer_inverse by (simp add: l)
  show "map_sum id (take IV_LENGTH) (base64ToArrayBuffer e2) = Inr (fst (getRandomValues r2 IV_LENGTH))"
    unfolding e2 base64ToArrayBuffer_inverse by (simp add: l)
  show "e1 \<noteq> e2"
  proof
    assume "e1 = e2"
    then have "fst (getRandomValues r1 IV_LENGTH) @ ct1 = fst (getRandomValues r2 IV_LENGTH) @ ct2"
      unfolding e1 e2 by (rule arrayBufferToBase64_inj)
    then have "fst (getRandomValues r1 IV_LENGTH) = fst (getRandomValues r2 IV_LENGTH)"
      by (simp add: l)
    with d show False by simp
  qed
next
  assume cfg: "configured_salt cfg = None"
    and p1: "encrypt_primary h cfg rng1 text masterKey salt = Inl err1"
    and p2: "encrypt_primary h cfg rng2 text masterKey salt = Inl err2"
  show f1: "encrypt h cfg rng1 sfx1 text masterKey salt = fallbackEncrypt cfg sfx1 text masterKey salt"
    using cfg p1 by (rule encrypt_fallback)
  show f2: "encrypt h cfg rng2 sfx2 text masterKey salt = fallbackEncrypt cfg sfx2 text masterKey salt"
    using cfg p2 by (rule encrypt_fallback)
  show f: "fallbackEncrypt cfg sfx1 text masterKey salt = fallbackEncrypt cfg sfx2 text masterKey salt"
    unfolding fallbackEncrypt_def fallback_salt_default [OF cfg] ..
  show "encrypt h cfg rng1 sfx1 text masterKey salt = encrypt h cfg rng2 sfx2 text masterKey salt"
    unfolding f1 f2 by (rule f)
qed

text \<open>
  The theorem on the stand-in host, for two random sources, and on a host without
  \<open>crypto.subtle\<close>, where the primary path throws.
\<close>

theorem C6_encode_twice_witness:
  "encrypt_salt default_config letters_rng (js ''s'') = (js ''s'', letters_rng) \<and>
   encrypt_salt default_config marker_rng (js ''s'') = (js ''s'', marker_rng) \<and>
   encrypt_primary toy_host default_config letters_rng (js ''hi'') (js ''k'') (js ''s'') =
     Inr (arrayBufferToBase64
       ([65, 66, 67, 68, 69, 70, 71, 72, 73, 74, 75, 76] @ [3, 2] @ 107 # 115 # replicate 14 0)) \<and>
   encrypt_primary toy_host default_config marker_rng (js ''hi'') (js ''k'') (js ''s'') =
     Inr (arrayBufferToBase64
       ([70, 65, 76, 76, 66, 65, 67, 75, 58, 65, 65, 65] @ [3, 2] @ 107 # 115 # replicate 14 0)) \<and>
   fst (getRandomValues letters_rng IV_LENGTH) \<noteq> fst (getRandomValues marker_rng IV_LENGTH) \<and>
   encrypt toy_host default_config letters_rng (js ''aaaaaa'') (js ''hi'') (js ''k'') (js ''s'') =
     Inr (arrayBufferToBase64
       ([65, 66, 67, 68, 69, 70, 71, 72, 73, 74, 75, 76] @ [3, 2] @ 107 # 115 # replicate 14 0)) \<and>
   encrypt toy_host default_config marker_rng (js ''bbbbbb'') (js ''hi'') (js ''k'') (js ''s'') =
     Inr (arrayBufferToBase64
       ([70, 65, 76, 76, 66, 65, 67, 75, 58, 65, 65, 65] @ [3, 2] @ 107 # 115 # replicate 14 0)) \<and>
   arrayBufferToBase64
       ([65, 66, 67, 68, 69, 70, 71, 72, 73, 74, 75, 76] @ [3, 2] @ 107 # 115 # replicate 14 0) \<noteq>
   arrayBufferToBase64
       ([70, 65, 76, 76, 66, 65, 67, 75, 58, 65, 65, 65] @ [3, 2] @ 107 # 115 # replicate 14 0) \<and>
   configured_salt default_config = None \<and>
   encrypt_primary plain_host default_config letters_rng (js ''hi'') (js ''k'') (js ''s'') = Inl TypeError \<and>
   encrypt_primary plain_host default_config marker_rng (js ''hi'') (js ''k'') (js ''s'') = Inl TypeError \<and>
   encrypt plain_host default_config letters_rng (js ''aaaaaa'') (js ''hi'') (js ''k'') (js ''s'') =
     encrypt plain_host default_config marker_rng (js ''bbbbbb'') (js ''hi'') (js ''k'') (js ''s'')"
proof -
  have s1: "encrypt_salt default_config letters_rng (js ''s'') = (js ''s'', letters_rng)"
    and s2: "encrypt_salt default_config marker_rng (js ''s'') = (js ''s'', marker_rng)"
    by (rule encrypt_salt_default [OF default_unsalted])+
  have d: "fst (getRandomValues letters_rng IV_LENGTH) \<noteq> fst (getRandomValues marker_rng IV_LENGTH)"
    unfolding letters_iv marker_iv by simp
  have h1: "encrypt_salt default_config letters_rng (js ''s'') = (js ''s'', letters_rng) \<and>
      encrypt_salt default_config marker_rng (js ''s'') = (js ''s'', marker_rng) \<and>
      encrypt_primary toy_host default_config letters_rng (js ''hi'') (js ''k'') (js ''s'') =
        Inr (arrayBufferToBase64
          ([65, 66, 67, 68, 69, 70, 71, 72, 73, 74, 75, 76] @ [3, 2] @ 107 # 115 # replicate 14 0)) \<and>
      encrypt_primary toy_host default_config marker_rng (js ''hi'') (js ''k'') (js ''s'') =
        Inr (arrayBufferToBase64
          ([70, 65, 76, 76, 66, 65, 67, 75, 58, 65, 65, 65] @ [3, 2] @ 107 # 115 # replicate 14 0)) \<and>
      fst (getRandomValues letters_rng IV_LENGTH) \<noteq> fst (getRandomValues marker_rng IV_LENGTH)"
    using s1 s2 encrypt_primary_toy_hi encrypt_primary_toy_marker d by (intro conjI)
  have h2: "configured_salt default_config = None \<and>
      encrypt_primary plain_host default_config letters_rng (js ''hi'') (js ''k'') (js ''s'') = Inl TypeError \<and>
      encrypt_primary plain_host default_config marker_rng (js ''hi'') (js ''k'') (js ''s'') = Inl TypeError"
    using default_unsalted plain_primary_fails plain_primary_fails by (intro conjI)
  note t1 = C6_encode_twice [THEN conjunct1, rule_format, OF h1,
      of "js ''aaaaaa''" "js ''bbbbbb''"]
  note t2 = C6_encode_twice [THEN conjunct2, rule_format, OF h2,
      of "js ''aaaaaa''" "js ''bbbbbb''"]
  note a = t1 [THEN conjunct1]
  note b = t1 [THEN conjunct2, THEN conjunct1]
  note c = t1 [THEN conjunct2, THEN conjunct2, THEN conjunct2, THEN conjunct2]
  note e = t2 [THEN conjunct2, THEN conjunct2, THEN conjunct2]
  show ?thesis
    using s1 s2 encrypt_primary_toy_hi encrypt_primary_toy_marker d a b c
      default_unsalted plain_primary_fails plain_primary_fails e
    by (intro conjI)
qed

text \<open>
  C6 as stated fails in the fallback family: with no \<open>VALINE_CRYPTO_SALT\<close> configured,
  \<open>fallbackEncrypt\<close> uses no randomness, and two calls with different random draws
  return the same payload.
\<close>

theorem C6_fallback_deterministic_counterexample:
  "fst (getRandomValues letters_rng IV_LENGTH) \<noteq> fst (getRandomValues marker_rng IV_LENGTH) \<and>
   js ''aaaaaa'' \<noteq> js ''bbbbbb'' \<and>
   encrypt plain_host default_config letters_rng (js ''aaaaaa'') (js ''hi'') (js ''k'') (js ''s'') =
     Inr [82, 107, 70, 77, 84, 69, 74, 66, 81, 48, 115, 54, 71, 66, 107, 61] \<and>
   encrypt plain_host default_config marker_rng (js ''bbbbbb'') (js ''hi'') (js ''k'') (js ''s'') =
     Inr [82, 107, 70, 77, 84, 69, 74, 66, 81, 48, 115, 54, 71, 66, 107, 61]"
proof -
  have "fst (getRandomValues letters_rng IV_LENGTH) \<noteq> fst (getRandomValues marker_rng IV_LENGTH)"
    unfolding letters_iv marker_iv by simp
  moreover have "js ''aaaaaa'' \<noteq> js ''bbbbbb''"
    by (simp add: js_simps)
  ultimately show ?thesis
    unfolding encrypt_plain_host fallbackEncrypt_hi [OF default_unsalted] by simp
qed

section \<open>C7: comments without the marker\<close>

text \<open>
  C7, as the code has it: a comment whose trimmed text does not start with the marker
  is not encoded, and in particular every text that does not start with the marker and
  has no leading whitespace; a comment whose trimmed text starts with the marker is
  encoded, with the rest of the trimmed text as its data.
\<close>

theorem C7_unmarked_is_plaintext:
  "(\<not> startsWith (trim t) ENCRYPTION_MARKER \<longrightarrow> processComment t = NotEncoded) \<and>
   (dropWhile is_js_ws t = t \<and> \<not> startsWith t ENCRYPTION_MARKER \<longrightarrow> processComment t = NotEncoded) \<and>
   (startsWith (trim t) ENCRYPTION_MARKER \<longrightarrow>
      processComment t = Encoded (drop (length ENCRYPTION_MARKER) (trim t)))"
proof (intro conjI impI)
  assume "\<not> startsWith (trim t) ENCRYPTION_MARKER"
  then show "processComment t = NotEncoded"
    by (simp add: processComment_def)
next
  assume "dropWhile is_js_ws t = t \<and> \<not> startsWith t ENCRYPTION_MARKER"
  then have "\<not> startsWith (trim t) ENCRYPTION_MARKER"
    using startsWith_trim by blast
  then show "processComment t = NotEncoded"
    by (simp add: processComment_def)
next
  assume "startsWith (trim t) ENCRYPTION_MARKER"
  then show "processComment t = Encoded (drop (length ENCRYPTION_MARKER) (trim t))"
    by (simp add: processComment_def substring_from_def)
qed

text \<open>The theorem at \<open>hello world\<close> and at a marked text.\<close>

theorem C7_unmarked_is_plaintext_witness:
  "\<not> startsWith (trim (js ''hello world'')) ENCRYPTION_MARKER \<and>
   dropWhile is_js_ws (js ''hello world'') = js ''hello world'' \<and>
   \<not> startsWith (js ''hello world'') ENCRYPTION_MARKER \<and>
   processComment (js ''hello world'') = NotEncoded \<and>
   startsWith (trim (ENCRYPTION_MARKER @ js ''QUJD'')) ENCRYPTION_MARKER \<and>
   processComment (ENCRYPTION_MARKER @ js ''QUJD'') = Encoded (js ''QUJD'')"
proof -
  have m: "trim (ENCRYPTION_MARKER @ js ''QUJD'') = ENCRYPTION_MARKER @ js ''QUJD''"
    by (simp add: trim_def ENCRYPTION_MARKER_def js_simps is_js_ws_def)
  have 1: "\<not> startsWith (trim (js ''hello world'')) ENCRYPTION_MARKER"
    unfolding trim_hello by (rule hello_unmarked)
  have 2: "startsWith (trim (ENCRYPTION_MARKER @ js ''QUJD'')) ENCRYPTION_MARKER"
    unfolding m by simp
  note t1 = C7_unmarked_is_plaintext [of "js ''hello world''", THEN conjunct1, rule_format, OF 1]
  note t2 = C7_unmarked_is_plaintext [of "ENCRYPTION_MARKER @ js ''QUJD''", THEN conjunct2,
      THEN conjunct2, rule_format, OF 2]
  have 3: "processComment (ENCRYPTION_MARKER @ js ''QUJD'') = Encoded (js ''QUJD'')"
    using t2 unfolding m by simp
  show ?thesis
    using 1 hello_no_leading_ws hello_unmarked t1 2 3 by (intro conjI)
qed

text \<open>
  C7 as stated fails at a text that starts with a space followed by the marker: it
  does not start with the marker, and it is classified as encoded.
\<close>

theorem C7_leading_whitespace_counterexample:
  "\<not> startsWith (js '' '' @ ENCRYPTION_MARKER @ js ''QUJD'') ENCRYPTION_MARKER \<and>
   processComment (js '' '' @ ENCRYPTION_MARKER @ js ''QUJD'') = Encoded (js ''QUJD'')"
proof -
  have "trim (js '' '' @ ENCRYPTION_MARKER @ js ''QUJD'') = ENCRYPTION_MARKER @ js ''QUJD''"
    by (simp add: trim_def ENCRYPTION_MARKER_def js_simps is_js_ws_def)
  then have "processComment (js '' '' @ ENCRYPTION_MARKER @ js ''QUJD'') = Encoded (js ''QUJD'')"
    by (simp add: processComment_def substring_from_def)
  moreover have "\<not> startsWith (js '' '' @ ENCRYPTION_MARKER @ js ''QUJD'') ENCRYPTION_MARKER"
    by (simp add: startsWith_def ENCRYPTION_MARKER_def js_simps)
  ultimately show ?thesis by simp
qed

section \<open>C8: key derivation\<close>

text \<open>
  C8, as the code has it: \<open>generateStrongKey\<close> and \<open>deriveKey\<close> validate nothing.
  Without \<open>crypto.subtle\<close> they throw a \<open>TypeError\<close>; otherwise the result is the
  result of the host's PBKDF2 on the UTF-8 bytes of the secret (none, for the empty
  secret) and of the salt, with 100000 iterations in \<open>deriveKey\<close> and in
  \<open>generateStrongKey\<close> the configured iteration count, or 100000 when none or 0 is
  configured, and a key length of 256 bits: 32 bytes on a host that returns keys of
  the length asked for.
\<close>

theorem C8_key_derivation_unchecked:
  "(subtle h = None \<longrightarrow>
      generateStrongKey h cfg password salt = Inl TypeError \<and>
      deriveKey h password salt_or_bytes = Inl TypeError) \<and>
   (subtle h = Some w \<longrightarrow>
      deriveKey h password salt_or_bytes =
        pbkdf2 w (TextEncoder_encode password)
          (case salt_or_bytes of Inl s \<Rightarrow> TextEncoder_encode s | Inr b \<Rightarrow> b) 100000 256) \<and>
   (subtle h = Some w \<longrightarrow>
      (\<exists>n. n \<noteq> 0 \<and>
           (pbkdf2Iterations cfg = Some n \<or>
            (pbkdf2Iterations cfg = None \<or> pbkdf2Iterations cfg = Some 0) \<and> n = 100000) \<and>
           generateStrongKey h cfg password salt =
             pbkdf2 w (TextEncoder_encode password) (TextEncoder_encode salt) n 256)) \<and>
   (subtle h = Some w \<and> (\<forall>p s i b k. pbkdf2 w p s i b = Inr k \<longrightarrow> length k = b div 8) \<and>
    generateStrongKey h cfg password salt = Inr key \<longrightarrow> length key = 32) \<and>
   TextEncoder_encode [] = []"
proof (intro conjI impI)
  assume "subtle h = None"
  then show "generateStrongKey h cfg password salt = Inl TypeError"
    by (simp add: generateStrongKey_def)
next
  assume "subtle h = None"
  then show "deriveKey h password salt_or_bytes = Inl TypeError"
    by (simp add: deriveKey_def)
next
  assume "subtle h = Some w"
  then show "deriveKey h password salt_or_bytes =
        pbkdf2 w (TextEncoder_encode password)
          (case salt_or_bytes of Inl s \<Rightarrow> TextEncoder_encode s | Inr b \<Rightarrow> b) 100000 256"
    by (simp add: deriveKey_def)
next
  assume w: "subtle h = Some w"
  show "\<exists>n. n \<noteq> 0 \<and>
           (pbkdf2Iterations cfg = Some n \<or>
            (pbkdf2Iterations cfg = None \<or> pbkdf2Iterations cfg = Some 0) \<and> n = 100000) \<and>
           generateStrongKey h cfg password salt =
             pbkdf2 w (TextEncoder_encode password) (TextEncoder_encode salt) n 256"
  proof (cases "pbkdf2Iterations cfg")
    case None
    with w show ?thesis
      by (intro exI [of _ 100000]) (simp add: generateStrongKey_def)
  next
    case (Some n)
    show ?thesis
    proof (cases "n = 0")
      case True
      with w Some show ?thesis
        by (intro exI [of _ 100000]) (simp add: generateStrongKey_def)
    next
      case False
      with w Some show ?thesis
        by (intro exI [of _ n]) (simp add: generateStrongKey_def)
    qed
  qed
next
  assume a: "subtle h = Some w \<and> (\<forall>p s i b k. pbkdf2 w p s i b = Inr k \<longrightarrow> length k = b div 8) \<and>
    generateStrongKey h cfg password salt = Inr key"
  then obtain n where
    "pbkdf2 w (TextEncoder_encode password) (TextEncoder_encode salt) n 256 = Inr key"
    by (auto simp: generateStrongKey_def Let_def)
  with a have "length key = 256 div 8" by blast
  then show "length key = 32" by simp
next
  show "TextEncoder_encode [] = []"
    by (simp add: TextEncoder_encode_def)
qed

text \<open>The theorem on a host without \<open>crypto.subtle\<close> and on the stand-in host.\<close>

theorem C8_key_derivation_unchecked_witness:
  "subtle plain_host = None \<and>
   generateStrongKey plain_host default_config (js ''k'') (js ''s'') = Inl TypeError \<and>
   subtle toy_host = Some toy_webcrypto \<and>
   (\<exists>n. n \<noteq> 0 \<and>
        (pbkdf2Iterations default_config = Some n \<or>
         (pbkdf2Iterations default_config = None \<or> pbkdf2Iterations default_config = Some 0) \<and>
         n = 100000) \<and>
        generateStrongKey toy_host default_config (js ''k'') (js ''s'') =
          pbkdf2 toy_webcrypto (TextEncoder_encode (js ''k'')) (TextEncoder_encode (js ''s'')) n 256) \<and>
   generateStrongKey toy_host default_config (js ''k'') (js ''s'') = Inr (107 # 115 # replicate 30 0) \<and>
   length (107 # 115 # replicate 30 (0 :: 8 word)) = 32"
proof -
  have l: "\<forall>p s i b k. pbkdf2 toy_webcrypto p s i b = Inr k \<longrightarrow> length k = b div 8"
    by (auto simp: toy_webcrypto_def toy_pbkdf2_def split: if_splits)
  have a: "subtle toy_host = Some toy_webcrypto \<and>
      (\<forall>p s i b k. pbkdf2 toy_webcrypto p s i b = Inr k \<longrightarrow> length k = b div 8) \<and>
      generateStrongKey toy_host default_config (js ''k'') (js ''s'') = Inr (107 # 115 # replicate 30 0)"
    using toy_subtle l toy_key_k_s by (intro conjI)
  note t3 = C8_key_derivation_unchecked [of toy_host default_config "js ''k''" "js ''s''" _ toy_webcrypto,
      THEN conjunct2, THEN conjunct2, THEN conjunct2, THEN conjunct1, rule_format, OF a]
  note t1 = C8_key_derivation_unchecked [of plain_host default_config "js ''k''" "js ''s''",
      THEN conjunct1, rule_format, OF plain_subtle, THEN conjunct1]
  note t2 = C8_key_derivation_unchecked [of toy_host default_config "js ''k''" "js ''s''" _ toy_webcrypto,
      THEN conjunct2, THEN conjunct2, THEN conjunct1, rule_format, OF toy_subtle]
  show ?thesis
    using plain_subtle toy_subtle t1 t2 toy_key_k_s t3 by (intro conjI)
qed

text \<open>
  C8 as stated fails on the stand-in host: the empty secret, and the iteration counts 0
  and 1, each give a key and no error.
\<close>

theorem C8_no_validation_counterexample:
  "generateStrongKey toy_host default_config [] (js ''s'') = Inr (115 # replicate 31 0) \<and>
   deriveKey toy_host [] (Inl (js ''s'')) = Inr (115 # replicate 31 0) \<and>
   generateStrongKey toy_host
     \<lparr>VALINE_CRYPTO_SALT = None, saltLength = None, pbkdf2Iterations = Some 0\<rparr> (js ''k'') (js ''s'') =
     Inr (107 # 115 # replicate 30 0) \<and>
   generateStrongKey toy_host
     \<lparr>VALINE_CRYPTO_SALT = None, saltLength = None, pbkdf2Iterations = Some 1\<rparr> (js ''k'') (js ''s'') =
     Inr (107 # 115 # replicate 30 0)"
  by (simp add: generateStrongKey_def deriveKey_def toy_host_def toy_webcrypto_def default_config_def
      toy_pbkdf2_def encode_k TextEncoder_encode_def [of "[]"])

section \<open>C9: the nonce\<close>

text \<open>
  C9, as the code has it: whenever \<open>encrypt\<close> reaches the primary cipher
  (\<open>crypto.subtle\<close> is present and the key derivation succeeded), the
  IV it passes to AES-GCM is 12 bytes read from the host's random source at that call,
  the first 12, or bytes 8 to 19 when \<open>VALINE_CRYPTO_SALT\<close> is set and 8 bytes went
  to the salt; a second draw reads the 12 bytes after them. No argument of \<open>encrypt\<close>
  enters the IV. The payload of a successful call starts with that IV.
\<close>

theorem C9_fresh_nonce:
  assumes "encrypt_salt cfg rng salt = (salt', rng')"
    and "subtle h = Some w" and "generateStrongKey h cfg masterKey salt' = Inr key"
  shows
    "rng' = (case configured_salt cfg of None \<Rightarrow> rng | Some cs \<Rightarrow> (\<lambda>i. rng (i + 8))) \<and>
     fst (getRandomValues rng' IV_LENGTH) = map rng' [0..<12] \<and>
     length (fst (getRandomValues rng' IV_LENGTH)) = 12 \<and>
     fst (getRandomValues (snd (getRandomValues rng' IV_LENGTH)) IV_LENGTH) =
       map (\<lambda>i. rng' (i + 12)) [0..<12] \<and>
     encrypt_primary h cfg rng' text masterKey salt' =
       (case gcm_encrypt w key (fst (getRandomValues rng' IV_LENGTH)) (TextEncoder_encode text) of
          Inl e \<Rightarrow> Inl e
        | Inr ct \<Rightarrow> Inr (arrayBufferToBase64 (fst (getRandomValues rng' IV_LENGTH) @ ct))) \<and>
     (gcm_encrypt w key (fst (getRandomValues rng' IV_LENGTH)) (TextEncoder_encode text) = Inr ct \<longrightarrow>
        encrypt h cfg rng sfx text masterKey salt =
          Inr (arrayBufferToBase64 (fst (getRandomValues rng' IV_LENGTH) @ ct)) \<and>
        map_sum id (take IV_LENGTH)
          (base64ToArrayBuffer (arrayBufferToBase64 (fst (getRandomValues rng' IV_LENGTH) @ ct))) =
          Inr (fst (getRandomValues rng' IV_LENGTH)))"
proof -
  let ?iv = "fst (getRandomValues rng' IV_LENGTH)"
  have p: "encrypt_primary h cfg rng' text masterKey salt' =
       (case gcm_encrypt w key ?iv (TextEncoder_encode text) of
          Inl e \<Rightarrow> Inl e
        | Inr ct \<Rightarrow> Inr (arrayBufferToBase64 (?iv @ ct)))"
    using assms(2,3) by (simp add: encrypt_primary_def Let_def)
  have e: "encrypt h cfg rng sfx text masterKey salt = Inr (arrayBufferToBase64 (?iv @ ct))"
    if "gcm_encrypt w key ?iv (TextEncoder_encode text) = Inr ct"
    using that p assms(1) by (simp add: encrypt_def)
  have d: "fst (getRandomValues (snd (getRandomValues rng' IV_LENGTH)) IV_LENGTH) =
       map (\<lambda>i. rng' (i + 12)) [0..<12]"
    by (simp add: getRandomValues_def IV_LENGTH_def)
  show ?thesis
    using encrypt_salt_rng [OF assms(1)] p e d
    by (simp add: base64ToArrayBuffer_inverse) (simp add: getRandomValues_def IV_LENGTH_def)
qed

text \<open>The theorem on the stand-in host.\<close>

theorem C9_fresh_nonce_witness:
  "encrypt_salt default_config letters_rng (js ''s'') = (js ''s'', letters_rng) \<and>
   subtle toy_host = Some toy_webcrypto \<and>
   generateStrongKey toy_host default_config (js ''k'') (js ''s'') = Inr (107 # 115 # replicate 30 0) \<and>
   gcm_encrypt toy_webcrypto (107 # 115 # replicate 30 0)
     (fst (getRandomValues letters_rng IV_LENGTH)) (TextEncoder_encode (js ''hi'')) =
     Inr ([3, 2] @ 107 # 115 # replicate 14 0) \<and>
   fst (getRandomValues letters_rng IV_LENGTH) = [65, 66, 67, 68, 69, 70, 71, 72, 73, 74, 75, 76] \<and>
   length (fst (getRandomValues letters_rng IV_LENGTH)) = 12 \<and>
   encrypt toy_host default_config letters_rng [] (js ''hi'') (js ''k'') (js ''s'') =
     Inr (arrayBufferToBase64 (fst (getRandomValues letters_rng IV_LENGTH) @ [3, 2] @ 107 # 115 # replicate 14 0)) \<and>
   map_sum id (take IV_LENGTH)
     (base64ToArrayBuffer
        (arrayBufferToBase64 (fst (getRandomValues letters_rng IV_LENGTH) @ [3, 2] @ 107 # 115 # replicate 14 0))) =
     Inr (fst (getRandomValues letters_rng IV_LENGTH))"
proof -
  have s: "encrypt_salt default_config letters_rng (js ''s'') = (js ''s'', letters_rng)"
    by (rule encrypt_salt_default [OF default_unsalted])
  have e: "gcm_encrypt toy_webcrypto (107 # 115 # replicate 30 0)
     (fst (getRandomValues letters_rng IV_LENGTH)) (TextEncoder_encode (js ''hi'')) =
     Inr ([3, 2] @ 107 # 115 # replicate 14 0)"
    unfolding encode_k by (rule toy_enc_hi)
  note t = C9_fresh_nonce [OF s toy_subtle toy_key_k_s, of "js ''hi''" "[3, 2] @ 107 # 115 # replicate 14 0" "[]"]
  from t have l: "length (fst (getRandomValues letters_rng IV_LENGTH)) = 12"
    by (elim conjE)
  from t e have r: "encrypt toy_host default_config letters_rng [] (js ''hi'') (js ''k'') (js ''s'') =
     Inr (arrayBufferToBase64 (fst (getRandomValues letters_rng IV_LENGTH) @ [3, 2] @ 107 # 115 # replicate 14 0)) \<and>
     map_sum id (take IV_LENGTH)
     (base64ToArrayBuffer
        (arrayBufferToBase64 (fst (getRandomValues letters_rng IV_LENGTH) @ [3, 2] @ 107 # 115 # replicate 14 0))) =
     Inr (fst (getRandomValues letters_rng IV_LENGTH))"
    by blast
  show ?thesis
    using s toy_subtle toy_key_k_s e letters_iv l r by (intro conjI) simp_all
qed

text \<open>
  C9 as stated fails on a host without \<open>crypto.subtle\<close>: the key derivation throws
  before the IV is drawn, the primary path ends with that \<open>TypeError\<close>, and \<open>encrypt\<close>
  returns the same payload of the fallback family whatever the random source and the
  random suffix are; its 11 decoded characters hold no 12-byte IV.
\<close>

theorem C9_no_nonce_counterexample:
  "subtle plain_host = None \<and>
   generateStrongKey plain_host default_config (js ''k'') (js ''s'') = Inl TypeError \<and>
   (\<forall>rng. encrypt_primary plain_host default_config rng (js ''hi'') (js ''k'') (js ''s'') =
      Inl TypeError) \<and>
   (\<forall>rng sfx. encrypt plain_host default_config rng sfx (js ''hi'') (js ''k'') (js ''s'') =
      Inr [82, 107, 70, 77, 84, 69, 74, 66, 81, 48, 115, 54, 71, 66, 107, 61]) \<and>
   atob [82, 107, 70, 77, 84, 69, 74, 66, 81, 48, 115, 54, 71, 66, 107, 61] =
     Inr (FALLBACK_MARKER @ [24, 25]) \<and>
   length (FALLBACK_MARKER @ [24, 25]) = 11 \<and> IV_LENGTH = 12"
proof -
  have k: "generateStrongKey plain_host default_config (js ''k'') (js ''s'') = Inl TypeError"
    by (simp add: generateStrongKey_def plain_subtle)
  have p: "\<forall>rng. encrypt_primary plain_host default_config rng (js ''hi'') (js ''k'') (js ''s'') =
      Inl TypeError"
    by (simp add: plain_primary_fails)
  have e: "\<forall>rng sfx. encrypt plain_host default_config rng sfx (js ''hi'') (js ''k'') (js ''s'') =
      Inr [82, 107, 70, 77, 84, 69, 74, 66, 81, 48, 115, 54, 71, 66, 107, 61]"
    unfolding encrypt_plain_host fallbackEncrypt_hi [OF default_unsalted] by simp
  have a: "atob [82, 107, 70, 77, 84, 69, 74, 66, 81, 48, 115, 54, 71, 66, 107, 61] =
      Inr (FALLBACK_MARKER @ [24, 25])"
    using btoa_hi by (rule atob_btoa)
  have l: "length (FALLBACK_MARKER @ [24, 25]) = 11"
    by (simp add: length_FALLBACK_MARKER)
  show ?thesis
    using plain_subtle k p e a l IV_LENGTH_def by (intro conjI)
qed

section \<open>C10: the remembered key\<close>

lemma b64_groups_nonempty: "bs \<noteq> [] \<Longrightarrow> b64_groups bs \<noteq> []"
  by (cases bs rule: b64_groups.cases) auto

text \<open>
  C10, as the code has it: for every non-empty key whose code units are all at most 255,
  \<open>getKey\<close> after \<open>saveKey(k, true)\<close> returns exactly \<open>k\<close>, whatever the store held
  before; and after \<open>saveKey(k, false)\<close> it returns \<open>null\<close> for every key.
\<close>

theorem C10_saved_key_roundtrip:
  "(k \<noteq> [] \<and> latin1 k \<longrightarrow> getKey (saveKey st k True) = Some k) \<and>
   getKey (saveKey st k False) = None"
proof (intro conjI impI)
  assume k: "k \<noteq> [] \<and> latin1 k"
  then have l: "latin1 (rev k)" by (simp add: latin1_def)
  then have b: "btoa (rev k) = Inr (b64_groups (map unat (rev k)))"
    by (simp add: btoa_def)
  have ne: "b64_groups (map unat (rev k)) \<noteq> []"
    using k by (intro b64_groups_nonempty) simp
  have "atob (b64_groups (map unat (rev k))) = Inr (rev k)"
    using b by (rule atob_btoa)
  then show "getKey (saveKey st k True) = Some k"
    using b ne by (simp add: getKey_def saveKey_def)
next
  show "getKey (saveKey st k False) = None"
    by (simp add: getKey_def saveKey_def clearKey_def)
qed

text \<open>The theorem at the key \<open>Ab1\<close> and an empty store.\<close>

theorem C10_saved_key_roundtrip_witness:
  "js ''Ab1'' \<noteq> [] \<and> latin1 (js ''Ab1'') \<and>
   getKey (saveKey Map.empty (js ''Ab1'') True) = Some (js ''Ab1'')"
  using C10_saved_key_roundtrip [of "js ''Ab1''" Map.empty]
  by (simp add: js_def latin1_def)

text \<open>
  C10 as stated fails at the empty key, which is a string over Latin-1 characters: its
  base64 text is the empty string, which \<open>getKey\<close> reads as a missing item.
\<close>

theorem C10_empty_key_counterexample:
  "latin1 [] \<and> getKey (saveKey Map.empty [] True) = None \<and>
   getKey (saveKey Map.empty [] True) \<noteq> Some []"
  by (simp add: latin1_def getKey_def saveKey_def btoa_def)

end
